theory Spec2Isabelle
  imports Main "HOL-Library.AList"
begin

section \<open>Strings, exceptions and the Unicode digit tables\<close>

text \<open>
  A Python \<open>str\<close> is a sequence of Unicode code points, and \<open>len\<close> counts code points:
  a string is modelled as a list of code points (natural numbers). \<open>lit\<close> embeds an
  ASCII literal of the source.
\<close>

type_synonym pystr = "nat list"

definition lit :: "string \<Rightarrow> pystr" where
  "lit s = map of_char s"

text \<open>
  The exceptions the program raises or provokes, each with its message. The wrapper
  \<open>input_error\<close> catches exactly these three classes.
\<close>

datatype exn = ValueError pystr | IndexError pystr | KeyError pystr

text \<open>
  \<open>str(e)\<close>: the message itself for \<open>ValueError\<close> and \<open>IndexError\<close>; for a
  \<open>KeyError\<close> with one argument it is the \<open>repr\<close> of that argument. \<open>py_repr\<close> is
  \<open>repr\<close> on strings without quotes, backslashes or non-printable characters: single
  quotes around the text. The only arguments of \<open>KeyError\<close> in the program are three
  such literals.
\<close>

definition py_repr :: "pystr \<Rightarrow> pystr" where
  "py_repr s = lit [CHR 0x27] @ s @ lit [CHR 0x27]"

fun py_str :: "exn \<Rightarrow> pystr" where
  "py_str (ValueError m) = m"
| "py_str (IndexError m) = m"
| "py_str (KeyError m) = py_repr m"

text \<open>
  The code points with a decimal digit value (general category Nd: \<open>str.isdecimal\<close>,
  the class \<open>\d\<close> of \<open>re\<close> on \<open>str\<close> patterns, the digits \<open>int\<close> accepts) and the
  further ones that \<open>str.isdigit\<close> accepts (superscripts, circled digits, ...), as
  inclusive ranges, from the Unicode database 14.0.0 of CPython 3.11. Every range of the
  first table is a run of the digits 0 to 9 in order, repeated.
\<close>

definition decimal_ranges :: "(nat \<times> nat) list" where
  "decimal_ranges =
   [(48, 57), (1632, 1641), (1776, 1785), (1984, 1993), (2406, 2415), (2534, 2543),
    (2662, 2671), (2790, 2799), (2918, 2927), (3046, 3055), (3174, 3183), (3302, 3311),
    (3430, 3439), (3558, 3567), (3664, 3673), (3792, 3801), (3872, 3881), (4160, 4169),
    (4240, 4249), (6112, 6121), (6160, 6169), (6470, 6479), (6608, 6617), (6784, 6793),
    (6800, 6809), (6992, 7001), (7088, 7097), (7232, 7241), (7248, 7257), (42528, 42537),
    (43216, 43225), (43264, 43273), (43472, 43481), (43504, 43513), (43600, 43609),
    (44016, 44025), (65296, 65305), (66720, 66729), (68912, 68921), (69734, 69743),
    (69872, 69881), (69942, 69951), (70096, 70105), (70384, 70393), (70736, 70745),
    (70864, 70873), (71248, 71257), (71360, 71369), (71472, 71481), (71904, 71913),
    (72016, 72025), (72784, 72793), (73040, 73049), (73120, 73129), (92768, 92777),
    (92864, 92873), (93008, 93017), (120782, 120831), (123200, 123209), (123632, 123641),
    (125264, 125273), (130032, 130041)]"

definition other_digit_ranges :: "(nat \<times> nat) list" where
  "other_digit_ranges =
   [(178, 179), (185, 185), (4969, 4977), (6618, 6618), (8304, 8304), (8308, 8313),
    (8320, 8329), (9312, 9320), (9332, 9340), (9352, 9360), (9450, 9450), (9461, 9469),
    (9471, 9471), (10102, 10110), (10112, 10120), (10122, 10130), (68160, 68163),
    (69216, 69224), (69714, 69722), (127232, 127242)]"

fun in_ranges :: "(nat \<times> nat) list \<Rightarrow> nat \<Rightarrow> bool" where
  "in_ranges [] c = False"
| "in_ranges ((lo, hi) # rs) c = ((lo \<le> c \<and> c \<le> hi) \<or> in_ranges rs c)"

definition isdecimal_char :: "nat \<Rightarrow> bool" where
  "isdecimal_char c = in_ranges decimal_ranges c"

definition isdigit_char :: "nat \<Rightarrow> bool" where
  "isdigit_char c = (isdecimal_char c \<or> in_ranges other_digit_ranges c)"

text \<open>\<open>str.isdigit\<close>: at least one character, and every character a digit.\<close>

definition isdigit :: "pystr \<Rightarrow> bool" where
  "isdigit s = (s \<noteq> [] \<and> list_all isdigit_char s)"

text \<open>The decimal value of a code point of the first table.\<close>

fun decimal_in :: "(nat \<times> nat) list \<Rightarrow> nat \<Rightarrow> nat" where
  "decimal_in [] c = 0"
| "decimal_in ((lo, hi) # rs) c =
     (if lo \<le> c \<and> c \<le> hi then (c - lo) mod 10 else decimal_in rs c)"

definition decimal_value :: "nat \<Rightarrow> nat" where
  "decimal_value c = decimal_in decimal_ranges c"

definition ascii_digit :: "nat \<Rightarrow> bool" where
  "ascii_digit c = (48 \<le> c \<and> c \<le> 57)"

section \<open>Field classes\<close>

text \<open>
  \<open>Phone.validate\<close> and the constructor of \<open>Phone\<close>: the stored value is the string
  itself; an invalid string raises \<open>ValueError\<close>.
\<close>

definition Phone_validate :: "pystr \<Rightarrow> bool" where
  "Phone_validate phone = (length phone = 10 \<and> isdigit phone)"

definition Phone :: "pystr \<Rightarrow> exn + pystr" where
  "Phone phone =
     (if Phone_validate phone then Inr phone
      else Inl (ValueError (lit ''Invalid phone format'')))"

section \<open>Calendar dates\<close>

text \<open>
  \<open>datetime.date\<close>: a triple of year, month and day that the constructor has checked.
  The arithmetic is that of the \<open>datetime\<close> module (proleptic Gregorian calendar, years
  1 to 9999). A \<open>datetime\<close> that \<open>strptime\<close> builds from day, month and year alone has the
  time 00:00, and the program only ever takes its \<open>date()\<close>: it is modelled by its date.
\<close>

record date =
  year :: int
  month :: int
  day :: int

definition MINYEAR :: int where "MINYEAR = 1"
definition MAXYEAR :: int where "MAXYEAR = 9999"

definition is_leap :: "int \<Rightarrow> bool" where
  "is_leap y = (y mod 4 = 0 \<and> (y mod 100 \<noteq> 0 \<or> y mod 400 = 0))"

definition DAYS_IN_MONTH :: "int list" where
  "DAYS_IN_MONTH = [-1, 31, 28, 31, 30, 31, 30, 31, 31, 30, 31, 30, 31]"

definition DAYS_BEFORE_MONTH :: "int list" where
  "DAYS_BEFORE_MONTH = [-1, 0, 31, 59, 90, 120, 151, 181, 212, 243, 273, 304, 334]"

definition days_before_year :: "int \<Rightarrow> int" where
  "days_before_year y = (y - 1) * 365 + (y - 1) div 4 - (y - 1) div 100 + (y - 1) div 400"

definition days_in_month :: "int \<Rightarrow> int \<Rightarrow> int" where
  "days_in_month y m = (if m = 2 \<and> is_leap y then 29 else DAYS_IN_MONTH ! nat m)"

definition days_before_month :: "int \<Rightarrow> int \<Rightarrow> int" where
  "days_before_month y m =
     DAYS_BEFORE_MONTH ! nat m + (if m > 2 \<and> is_leap y then 1 else 0)"

definition ymd2ord :: "int \<Rightarrow> int \<Rightarrow> int \<Rightarrow> int" where
  "ymd2ord y m d = days_before_year y + days_before_month y m + d"

text \<open>
  The constructor \<open>date(y, m, d)\<close>, with the checks and the messages of CPython's
  implementation. The month is checked before it indexes the table.
\<close>

definition year_out_of_range :: "int \<Rightarrow> pystr" where
  "year_out_of_range y =
     (if y = 10000 then lit ''year 10000 is out of range''
      else if y = 0 then lit ''year 0 is out of range''
      else lit ''year is out of range'')"

definition new_date :: "int \<Rightarrow> int \<Rightarrow> int \<Rightarrow> exn + date" where
  "new_date y m d =
     (if \<not> (MINYEAR \<le> y \<and> y \<le> MAXYEAR) then Inl (ValueError (year_out_of_range y))
      else if \<not> (1 \<le> m \<and> m \<le> 12) then Inl (ValueError (lit ''month must be in 1..12''))
      else if \<not> (1 \<le> d \<and> d \<le> days_in_month y m)
        then Inl (ValueError (lit ''day is out of range for month''))
      else Inr \<lparr>year = y, month = m, day = d\<rparr>)"

text \<open>\<open>d.replace(year=y)\<close> builds a new date, and so checks it again.\<close>

definition replace_year :: "date \<Rightarrow> int \<Rightarrow> exn + date" where
  "replace_year d y = new_date y (month d) (day d)"

definition toordinal :: "date \<Rightarrow> int" where
  "toordinal d = ymd2ord (year d) (month d) (day d)"

text \<open>\<open>d.weekday()\<close>: Monday is 0, Sunday is 6.\<close>

definition weekday :: "date \<Rightarrow> int" where
  "weekday d = (toordinal d + 6) mod 7"

text \<open>Comparison of dates compares the triples; the difference of two dates in days.\<close>

definition date_less :: "date \<Rightarrow> date \<Rightarrow> bool" where
  "date_less a b =
     (year a < year b \<or> (year a = year b \<and>
        (month a < month b \<or> (month a = month b \<and> day a < day b))))"

definition days_between :: "date \<Rightarrow> date \<Rightarrow> int" where
  "days_between a b = toordinal a - toordinal b"

definition valid_date :: "date \<Rightarrow> bool" where
  "valid_date d =
     (MINYEAR \<le> year d \<and> year d \<le> MAXYEAR \<and> 1 \<le> month d \<and> month d \<le> 12 \<and>
      1 \<le> day d \<and> day d \<le> days_in_month (year d) (month d))"

text \<open>
  \<open>strftime\<close>: the names of \<open>%A\<close> in the C locale (the program never sets another), and
  the pattern \<open>%d.%m.%Y\<close>. Day and month are padded to two digits. The C library formats
  \<open>%Y\<close>: padded to four digits as documented (\<open>pad_year\<close> true), but glibc does not pad a
  year below 1000 (\<open>pad_year\<close> false).
\<close>

definition day_names :: "pystr list" where
  "day_names = map lit [''Monday'', ''Tuesday'', ''Wednesday'', ''Thursday'', ''Friday'',
     ''Saturday'', ''Sunday'']"

definition strftime_A :: "date \<Rightarrow> pystr" where
  "strftime_A d = day_names ! nat (weekday d)"

definition digit_char :: "int \<Rightarrow> nat" where
  "digit_char n = 48 + nat n"

definition fmt2 :: "int \<Rightarrow> pystr" where
  "fmt2 n = [digit_char (n div 10 mod 10), digit_char (n mod 10)]"

definition fmt4 :: "int \<Rightarrow> pystr" where
  "fmt4 n = [digit_char (n div 1000 mod 10), digit_char (n div 100 mod 10),
             digit_char (n div 10 mod 10), digit_char (n mod 10)]"

fun drop_zeros :: "pystr \<Rightarrow> pystr" where
  "drop_zeros (c # c' # cs) = (if c = 48 then drop_zeros (c' # cs) else c # c' # cs)"
| "drop_zeros cs = cs"

definition fmt_year :: "bool \<Rightarrow> int \<Rightarrow> pystr" where
  "fmt_year pad_year n = (if pad_year then fmt4 n else drop_zeros (fmt4 n))"

definition strftime_dmY :: "bool \<Rightarrow> date \<Rightarrow> pystr" where
  "strftime_dmY pad_year d =
     fmt2 (day d) @ lit ''.'' @ fmt2 (month d) @ lit ''.'' @ fmt_year pad_year (year d)"

section \<open>Parsing a date: \<open>datetime.strptime(s, "%d.%m.%Y")\<close>\<close>

text \<open>
  \<open>strptime\<close> compiles the format to the regular expression
  \<^verbatim>\<open>(?P<d>3[0-1]|[1-2]\d|0[1-9]|[1-9]| [1-9])\.(?P<m>1[0-2]|0[1-9]|[1-9])\.(?P<Y>\d\d\d\d)\<close>
  and matches it at the start of the string. A group is a list of alternatives, each a
  list of character classes; \<open>alts\<close> gives every way a group matches a prefix (the text
  matched and the rest), in the order a backtracking matcher tries them.
\<close>

type_synonym cclass = "nat \<Rightarrow> bool"

definition chr_is :: "char \<Rightarrow> cclass" where
  "chr_is a c = (c = of_char a)"

definition chr_in :: "char \<Rightarrow> char \<Rightarrow> cclass" where
  "chr_in a b c = (of_char a \<le> c \<and> c \<le> of_char b)"

fun match_seq :: "cclass list \<Rightarrow> pystr \<Rightarrow> (pystr \<times> pystr) option" where
  "match_seq [] s = Some ([], s)"
| "match_seq (p # ps) [] = None"
| "match_seq (p # ps) (c # s) =
     (if p c then (case match_seq ps s of None \<Rightarrow> None | Some (m, r) \<Rightarrow> Some (c # m, r))
      else None)"

definition alts :: "cclass list list \<Rightarrow> pystr \<Rightarrow> (pystr \<times> pystr) list" where
  "alts g s = List.map_filter (\<lambda>ps. match_seq ps s) g"

definition re_d :: "cclass list list" where
  "re_d = [[chr_is CHR ''3'', chr_in CHR ''0'' CHR ''1''],
           [chr_in CHR ''1'' CHR ''2'', isdecimal_char],
           [chr_is CHR ''0'', chr_in CHR ''1'' CHR ''9''],
           [chr_in CHR ''1'' CHR ''9''],
           [chr_is CHR '' '', chr_in CHR ''1'' CHR ''9'']]"

definition re_m :: "cclass list list" where
  "re_m = [[chr_is CHR ''1'', chr_in CHR ''0'' CHR ''2''],
           [chr_is CHR ''0'', chr_in CHR ''1'' CHR ''9''],
           [chr_in CHR ''1'' CHR ''9'']]"

definition re_Y :: "cclass list list" where
  "re_Y = [[isdecimal_char, isdecimal_char, isdecimal_char, isdecimal_char]]"

definition re_dot :: "cclass list list" where
  "re_dot = [[chr_is CHR ''.'']]"

text \<open>
  Matching one more group after each of the matches found so far: a match is the texts
  of the groups matched, in order, and the rest of the string. The matches come in the
  order in which a backtracking matcher finds them.
\<close>

definition then_group ::
    "cclass list list \<Rightarrow> (pystr list \<times> pystr) list \<Rightarrow> (pystr list \<times> pystr) list" where
  "then_group g ms =
     concat (map (\<lambda>(gs, r). map (\<lambda>(m, r'). (gs @ [m], r')) (alts g r)) ms)"

text \<open>
  Every match of the whole expression, first match first: the texts of \<open>d\<close>, the dot,
  \<open>m\<close>, the dot and \<open>Y\<close>, and what is left of the string after the match.
\<close>

definition format_regex_matches :: "pystr \<Rightarrow> (pystr list \<times> pystr) list" where
  "format_regex_matches s =
     then_group re_Y (then_group re_dot (then_group re_m (then_group re_dot
       (then_group re_d [([], s)]))))"

text \<open>
  \<open>int\<close> on the text of a group: blanks around the number are skipped (the group \<open>d\<close>
  may start with one), and the digits are read by their decimal values.
\<close>

definition py_int :: "pystr \<Rightarrow> int" where
  "py_int s = foldl (\<lambda>n c. 10 * n + int (decimal_value c)) 0 (dropWhile (\<lambda>c. c = 32) s)"

text \<open>
  \<open>strptime\<close>: no match, or text left after the match, raises \<open>ValueError\<close>; so does
  the construction of the date from the three numbers. (The first two messages also
  quote the input; the program never shows them.)
\<close>

definition strptime_dmY :: "pystr \<Rightarrow> exn + date" where
  "strptime_dmY s =
     (case format_regex_matches s of
        [] \<Rightarrow> Inl (ValueError (lit ''time data does not match format''))
      | (gs, rest) # _ \<Rightarrow>
          if rest \<noteq> [] then Inl (ValueError (lit ''unconverted data remains''))
          else new_date (py_int (gs ! 4)) (py_int (gs ! 2)) (py_int (gs ! 0)))"

text \<open>
  \<open>Birthday.validate\<close> turns the \<open>ValueError\<close> of \<open>strptime\<close> into \<open>False\<close>; the
  constructor of \<open>Birthday\<close> parses the string again and stores the date.
\<close>

definition Birthday_validate :: "pystr \<Rightarrow> exn + bool" where
  "Birthday_validate s =
     (case strptime_dmY s of
        Inr _ \<Rightarrow> Inr True
      | Inl (ValueError _) \<Rightarrow> Inr False
      | Inl e \<Rightarrow> Inl e)"

definition Birthday :: "pystr \<Rightarrow> exn + date" where
  "Birthday s =
     (case Birthday_validate s of
        Inl e \<Rightarrow> Inl e
      | Inr ok \<Rightarrow>
          if ok then strptime_dmY s
          else Inl (ValueError (lit ''Invalid birthday format'')))"

section \<open>Record and AddressBook\<close>

text \<open>
  A \<open>Record\<close> holds the value of its \<open>Name\<close>, the values of its \<open>Phone\<close> objects in
  order, and the date of its \<open>Birthday\<close> if it has one. \<open>add_phone\<close> and
  \<open>add_birthday\<close> raise what the field constructors raise, before anything is stored.
\<close>

record Record =
  name :: pystr
  phones :: "pystr list"
  birthday :: "date option"

definition Record_init :: "pystr \<Rightarrow> Record" where
  "Record_init nm = \<lparr>name = nm, phones = [], birthday = None\<rparr>"

definition add_phone :: "Record \<Rightarrow> pystr \<Rightarrow> exn + Record" where
  "add_phone r phone =
     (case Phone phone of
        Inl e \<Rightarrow> Inl e
      | Inr p \<Rightarrow> Inr (r\<lparr>phones := phones r @ [p]\<rparr>))"

definition add_birthday :: "Record \<Rightarrow> pystr \<Rightarrow> exn + Record" where
  "add_birthday r d =
     (case Birthday d of
        Inl e \<Rightarrow> Inl e
      | Inr b \<Rightarrow> Inr (r\<lparr>birthday := Some b\<rparr>))"

text \<open>
  The \<open>AddressBook\<close> is a dictionary, and a Python dictionary keeps its keys in the
  order of their first insertion: it is an association list with distinct keys.
  Assigning to a key that is present replaces the value in place, assigning to a new key
  appends (\<open>AList.update\<close> does both). Each record object is stored under one key only, so
  a record changed through the book is the entry of its key replaced.
\<close>

type_synonym AddressBook = "(pystr \<times> Record) list"

definition add_record :: "AddressBook \<Rightarrow> Record \<Rightarrow> AddressBook" where
  "add_record book r = AList.update (name r) r book"

definition find :: "AddressBook \<Rightarrow> pystr \<Rightarrow> Record option" where
  "find book nm = map_of book nm"

definition delete :: "AddressBook \<Rightarrow> pystr \<Rightarrow> AddressBook" where
  "delete book nm = (if map_of book nm \<noteq> None then AList.delete nm book else book)"

subsection \<open>\<open>get_birthdays_per_week\<close>\<close>

text \<open>
  The date of the birthday in the year of \<open>today\<close>, moved to the next year when it is
  before \<open>today\<close>. Both calls of \<open>replace\<close> can raise.
\<close>

definition next_birthday :: "date \<Rightarrow> date \<Rightarrow> exn + date" where
  "next_birthday today bd =
     (case replace_year bd (year today) of
        Inl e \<Rightarrow> Inl e
      | Inr birthday_this_year \<Rightarrow>
          if date_less birthday_this_year today then replace_year bd (year today + 1)
          else Inr birthday_this_year)"

definition weekday_key :: "date \<Rightarrow> pystr" where
  "weekday_key d = (if weekday d = 5 \<or> weekday d = 6 then lit ''Monday'' else strftime_A d)"

text \<open>
  The result is a \<open>defaultdict(list)\<close>, again in insertion order:
  \<open>birthdays[weekday].append(name)\<close> creates the empty list for a new key.
\<close>

type_synonym birthdays = "(pystr \<times> pystr list) list"

definition append_name :: "birthdays \<Rightarrow> pystr \<Rightarrow> pystr \<Rightarrow> birthdays" where
  "append_name bs wd nm =
     AList.update wd ((case map_of bs wd of None \<Rightarrow> [] | Some ns \<Rightarrow> ns) @ [nm]) bs"

text \<open>
  The loop over the records of the book; \<open>today\<close> is the date of the system clock. A
  \<open>Birthday\<close> object is always true, so \<open>if record.birthday\<close> tests for \<open>None\<close>.
\<close>

fun birthdays_loop :: "date \<Rightarrow> Record list \<Rightarrow> birthdays \<Rightarrow> exn + birthdays" where
  "birthdays_loop today [] bs = Inr bs"
| "birthdays_loop today (r # rs) bs =
     (case birthday r of
        None \<Rightarrow> birthdays_loop today rs bs
      | Some bd \<Rightarrow>
          (case next_birthday today bd of
             Inl e \<Rightarrow> Inl e
           | Inr birthday_this_year \<Rightarrow>
               if days_between birthday_this_year today < 7
               then birthdays_loop today rs
                      (append_name bs (weekday_key birthday_this_year) (name r))
               else birthdays_loop today rs bs))"

definition get_birthdays_per_week :: "date \<Rightarrow> AddressBook \<Rightarrow> exn + birthdays" where
  "get_birthdays_per_week today book = birthdays_loop today (map snd book) []"

section \<open>Bot functions\<close>

text \<open>
  \<open>name, phone = args\<close> raises \<open>ValueError\<close> unless the list has two elements
  (messages of CPython 3.11); \<open>args[0]\<close> and \<open>phones[0]\<close> raise \<open>IndexError\<close> on an
  empty list.
\<close>

definition unpack2 :: "pystr list \<Rightarrow> exn + (pystr \<times> pystr)" where
  "unpack2 args =
     (case args of
        [] \<Rightarrow> Inl (ValueError (lit ''not enough values to unpack (expected 2, got 0)''))
      | [a] \<Rightarrow> Inl (ValueError (lit ''not enough values to unpack (expected 2, got 1)''))
      | [a, b] \<Rightarrow> Inr (a, b)
      | _ \<Rightarrow> Inl (ValueError (lit ''too many values to unpack (expected 2)'')))"

definition index0 :: "'a list \<Rightarrow> exn + 'a" where
  "index0 xs =
     (case xs of [] \<Rightarrow> Inl (IndexError (lit ''list index out of range'')) | x # _ \<Rightarrow> Inr x)"

text \<open>
  The body of a bot function returns its string or raises, and leaves a book behind in
  both cases. \<open>input_error\<close> turns an exception of the three classes into its \<open>str\<close>.
\<close>

type_synonym outcome = "(exn + pystr) \<times> AddressBook"

fun input_error :: "outcome \<Rightarrow> pystr \<times> AddressBook" where
  "input_error (Inr s, book) = (s, book)"
| "input_error (Inl (ValueError m), book) = (py_str (ValueError m), book)"
| "input_error (Inl (IndexError m), book) = (py_str (IndexError m), book)"
| "input_error (Inl (KeyError m), book) = (py_str (KeyError m), book)"

definition add_contact :: "pystr list \<Rightarrow> AddressBook \<Rightarrow> outcome" where
  "add_contact args book =
     (case unpack2 args of
        Inl e \<Rightarrow> (Inl e, book)
      | Inr (nm, phone) \<Rightarrow>
          if map_of book nm = None then
            (case add_phone (Record_init nm) phone of
               Inl e \<Rightarrow> (Inl e, book)
             | Inr record \<Rightarrow> (Inr (lit ''Contact added.''), add_record book record))
          else (Inl (KeyError (lit ''Contact already exists.'')), book))"

definition add_contact_safely :: "pystr list \<Rightarrow> AddressBook \<Rightarrow> pystr \<times> AddressBook" where
  "add_contact_safely args book = input_error (add_contact args book)"

text \<open>\<open>record.phones[0].value = phone\<close> assigns the new string to the first phone.\<close>

definition change_contact :: "pystr list \<Rightarrow> AddressBook \<Rightarrow> outcome" where
  "change_contact args book =
     (case unpack2 args of
        Inl e \<Rightarrow> (Inl e, book)
      | Inr (nm, phone) \<Rightarrow>
          (case map_of book nm of
             Some record \<Rightarrow>
               (case phones record of
                  [] \<Rightarrow> (Inl (IndexError (lit ''list index out of range'')), book)
                | p # ps \<Rightarrow>
                    (Inr (lit ''Contact updated.''),
                     AList.update nm (record\<lparr>phones := phone # ps\<rparr>) book))
           | None \<Rightarrow> (Inl (KeyError (lit ''Contact not found.'')), book)))"

definition change_contact_safely :: "pystr list \<Rightarrow> AddressBook \<Rightarrow> pystr \<times> AddressBook" where
  "change_contact_safely args book = input_error (change_contact args book)"

definition get_phone :: "pystr list \<Rightarrow> AddressBook \<Rightarrow> outcome" where
  "get_phone args book =
     (case index0 args of
        Inl e \<Rightarrow> (Inl e, book)
      | Inr nm \<Rightarrow>
          (case map_of book nm of
             Some record \<Rightarrow> (index0 (phones record), book)
           | None \<Rightarrow> (Inl (KeyError (lit ''Contact not found.'')), book)))"

definition get_phone_safely :: "pystr list \<Rightarrow> AddressBook \<Rightarrow> pystr \<times> AddressBook" where
  "get_phone_safely args book = input_error (get_phone args book)"

definition add_birthday_body :: "pystr list \<Rightarrow> AddressBook \<Rightarrow> outcome" where
  "add_birthday_body args book =
     (case unpack2 args of
        Inl e \<Rightarrow> (Inl e, book)
      | Inr (nm, d) \<Rightarrow>
          (case map_of book nm of
             Some record \<Rightarrow>
               (case add_birthday record d of
                  Inl e \<Rightarrow> (Inl e, book)
                | Inr record' \<Rightarrow> (Inr (lit ''Birthday added.''), AList.update nm record' book))
           | None \<Rightarrow> (Inl (KeyError (lit ''Contact not found.'')), book)))"

definition add_birthday_safely :: "pystr list \<Rightarrow> AddressBook \<Rightarrow> pystr \<times> AddressBook" where
  "add_birthday_safely args book = input_error (add_birthday_body args book)"

definition show_birthday :: "bool \<Rightarrow> pystr list \<Rightarrow> AddressBook \<Rightarrow> outcome" where
  "show_birthday pad_year args book =
     (case index0 args of
        Inl e \<Rightarrow> (Inl e, book)
      | Inr nm \<Rightarrow>
          (case map_of book nm of
             Some record \<Rightarrow>
               (case birthday record of
                  Some b \<Rightarrow> (Inr (strftime_dmY pad_year b), book)
                | None \<Rightarrow> (Inl (KeyError (lit ''Contact or birthday not found.'')), book))
           | None \<Rightarrow> (Inl (KeyError (lit ''Contact or birthday not found.'')), book)))"

definition show_birthday_safely ::
    "bool \<Rightarrow> pystr list \<Rightarrow> AddressBook \<Rightarrow> pystr \<times> AddressBook" where
  "show_birthday_safely pad_year args book = input_error (show_birthday pad_year args book)"

text \<open>
  \<open>show_all_contacts\<close> and \<open>show_birthdays_next_week\<close> are not wrapped by
  \<open>input_error\<close>: what their bodies raise leaves the function. \<open>collect\<close> evaluates the
  items of a generator in order and stops at the first that raises.
\<close>

fun collect :: "(exn + 'a) list \<Rightarrow> exn + 'a list" where
  "collect [] = Inr []"
| "collect (Inl e # xs) = Inl e"
| "collect (Inr x # xs) = (case collect xs of Inl e \<Rightarrow> Inl e | Inr ys \<Rightarrow> Inr (x # ys))"

fun join :: "pystr \<Rightarrow> pystr list \<Rightarrow> pystr" where
  "join sep [] = []"
| "join sep [x] = x"
| "join sep (x # y # ys) = x @ sep @ join sep (y # ys)"

definition contact_line :: "pystr \<times> Record \<Rightarrow> exn + pystr" where
  "contact_line kv =
     (case index0 (phones (snd kv)) of
        Inl e \<Rightarrow> Inl e
      | Inr p \<Rightarrow> Inr (fst kv @ lit '': '' @ p))"

definition show_all_contacts :: "AddressBook \<Rightarrow> exn + pystr" where
  "show_all_contacts book =
     (if book = [] then Inr (lit ''No contacts stored.'')
      else (case collect (map contact_line book) of
              Inl e \<Rightarrow> Inl e
            | Inr ls \<Rightarrow> Inr (join [10] ls)))"

definition show_birthdays_next_week :: "date \<Rightarrow> AddressBook \<Rightarrow> exn + pystr" where
  "show_birthdays_next_week today book =
     (case get_birthdays_per_week today book of
        Inl e \<Rightarrow> Inl e
      | Inr bs \<Rightarrow>
          if bs = [] then Inr (lit ''No birthdays next week.'')
          else Inr (join [10] (map (\<lambda>(wd, ns). wd @ lit '': '' @ join (lit '', '') ns) bs)))"

subsection \<open>Sequences of operations\<close>

text \<open>
  The commands \<open>main\<close> dispatches on, and, for the invariants of the book, the methods
  of \<open>AddressBook\<close> called directly. \<open>run\<close> is the book after a sequence of them.
\<close>

datatype command =
    Add "pystr list"
  | Change "pystr list"
  | GetPhone "pystr list"
  | All
  | AddBirthday "pystr list"
  | ShowBirthday "pystr list"
  | Birthdays date

fun exec :: "bool \<Rightarrow> command \<Rightarrow> AddressBook \<Rightarrow> AddressBook" where
  "exec pad_year (Add args) book = snd (add_contact_safely args book)"
| "exec pad_year (Change args) book = snd (change_contact_safely args book)"
| "exec pad_year (GetPhone args) book = snd (get_phone_safely args book)"
| "exec pad_year All book = book"
| "exec pad_year (AddBirthday args) book = snd (add_birthday_safely args book)"
| "exec pad_year (ShowBirthday args) book = snd (show_birthday_safely pad_year args book)"
| "exec pad_year (Birthdays today) book = book"

definition run :: "bool \<Rightarrow> command list \<Rightarrow> AddressBook" where
  "run pad_year cmds = foldl (\<lambda>book c. exec pad_year c book) [] cmds"

datatype operation =
    AddRecord Record
  | Find pystr
  | Delete pystr
  | UseCase command

fun apply_op :: "bool \<Rightarrow> operation \<Rightarrow> AddressBook \<Rightarrow> AddressBook" where
  "apply_op pad_year (AddRecord r) book = add_record book r"
| "apply_op pad_year (Find nm) book = book"
| "apply_op pad_year (Delete nm) book = delete book nm"
| "apply_op pad_year (UseCase c) book = exec pad_year c book"

definition run_ops :: "bool \<Rightarrow> operation list \<Rightarrow> AddressBook" where
  "run_ops pad_year ops = foldl (\<lambda>book opn. apply_op pad_year opn book) [] ops"

section \<open>Notions used in the properties\<close>

text \<open>
  Two invariants of the book: every record is stored under its own name, and every
  record has a phone.
\<close>

definition names_are_keys :: "AddressBook \<Rightarrow> bool" where
  "names_are_keys book = (\<forall>(k, r) \<in> set book. name r = k)"

definition has_phones :: "AddressBook \<Rightarrow> bool" where
  "has_phones book = (\<forall>(k, r) \<in> set book. phones r \<noteq> [])"

text \<open>A book with one contact, built by the commands \<open>add\<close> and \<open>add-birthday\<close>.\<close>

definition bob_book :: AddressBook where
  "bob_book =
     [(lit ''Bob'', \<lparr>name = lit ''Bob'', phones = [lit ''0123456789''],
         birthday = Some \<lparr>year = 2020, month = 2, day = 29\<rparr>\<rparr>)]"

text \<open>
  The names in a grouping, the names under one key of it, and whether the loop of
  \<open>get_birthdays_per_week\<close> takes a record: it has a birthday whose next occurrence is
  less than seven days ahead.
\<close>

definition names_in :: "birthdays \<Rightarrow> pystr set" where
  "names_in bs = set (concat (map snd bs))"

definition group :: "birthdays \<Rightarrow> pystr \<Rightarrow> pystr set" where
  "group bs wd = (case map_of bs wd of None \<Rightarrow> {} | Some ns \<Rightarrow> set ns)"

definition in_window :: "date \<Rightarrow> Record \<Rightarrow> bool" where
  "in_window today r =
     (case birthday r of
        None \<Rightarrow> False
      | Some bd \<Rightarrow>
          (case next_birthday today bd of
             Inl e \<Rightarrow> False
           | Inr nb \<Rightarrow> days_between nb today < 7))"

text \<open>
  A book for Wednesday, 4 November 2026: birthdays on the Saturday and the Friday of
  that week, on the day itself, outside the week, and a record without a birthday.
\<close>

definition week_book :: AddressBook where
  "week_book =
     [(lit ''Ann'', \<lparr>name = lit ''Ann'', phones = [lit ''0123456789''],
         birthday = Some \<lparr>year = 1990, month = 11, day = 7\<rparr>\<rparr>),
      (lit ''Bob'', \<lparr>name = lit ''Bob'', phones = [lit ''0123456789''],
         birthday = Some \<lparr>year = 1985, month = 11, day = 6\<rparr>\<rparr>),
      (lit ''Cid'', \<lparr>name = lit ''Cid'', phones = [lit ''0123456789''],
         birthday = Some \<lparr>year = 2000, month = 11, day = 4\<rparr>\<rparr>),
      (lit ''Dan'', \<lparr>name = lit ''Dan'', phones = [lit ''0123456789''],
         birthday = Some \<lparr>year = 1970, month = 12, day = 25\<rparr>\<rparr>),
      (lit ''Eve'', \<lparr>name = lit ''Eve'', phones = [lit ''0123456789''], birthday = None\<rparr>)]"

definition week_birthdays :: birthdays where
  "week_birthdays =
     [(lit ''Monday'', [lit ''Ann'']), (lit ''Friday'', [lit ''Bob'']),
      (lit ''Wednesday'', [lit ''Cid''])]"

text \<open>
  The next occurrence of a birthday as the specification words it: the month and the day
  of the birthday in the year of today, and in the following year only when that date is
  strictly before today. A birthday occurs in a year when the year is at most 9999 and,
  for a 29 February, is a leap year. The birthdays of a book occur when each of them
  occurs in the year of today and in the year of its next occurrence.
\<close>

definition next_occurrence :: "date \<Rightarrow> date \<Rightarrow> date" where
  "next_occurrence today bd =
     (if date_less \<lparr>year = year today, month = month bd, day = day bd\<rparr> today
      then \<lparr>year = year today + 1, month = month bd, day = day bd\<rparr>
      else \<lparr>year = year today, month = month bd, day = day bd\<rparr>)"

definition occurs_in :: "int \<Rightarrow> date \<Rightarrow> bool" where
  "occurs_in y bd = (y \<le> MAXYEAR \<and> (month bd = 2 \<and> day bd = 29 \<longrightarrow> is_leap y))"

definition birthday_occurs :: "date \<Rightarrow> date \<Rightarrow> bool" where
  "birthday_occurs today bd =
     (occurs_in (year today) bd \<and> occurs_in (year (next_occurrence today bd)) bd)"

definition birthdays_occur :: "date \<Rightarrow> AddressBook \<Rightarrow> bool" where
  "birthdays_occur today book =
     (\<forall>(k, r) \<in> set book.
        case birthday r of None \<Rightarrow> True | Some bd \<Rightarrow> birthday_occurs today bd)"

text \<open>Every birthday stored in the book is a calendar date, as \<open>Birthday\<close> builds them.\<close>

definition valid_birthdays :: "AddressBook \<Rightarrow> bool" where
  "valid_birthdays book =
     (\<forall>(k, r) \<in> set book. case birthday r of None \<Rightarrow> True | Some bd \<Rightarrow> valid_date bd)"

text \<open>
  A book with a birthday on 29 February and one on 1 January, and the commands that
  build it.
\<close>

definition feb_book :: AddressBook where
  "feb_book =
     [(lit ''Bob'', \<lparr>name = lit ''Bob'', phones = [lit ''0123456789''],
         birthday = Some \<lparr>year = 2020, month = 2, day = 29\<rparr>\<rparr>),
      (lit ''Cid'', \<lparr>name = lit ''Cid'', phones = [lit ''0123456789''],
         birthday = Some \<lparr>year = 2000, month = 1, day = 1\<rparr>\<rparr>)]"

definition feb_commands :: "command list" where
  "feb_commands =
     [Add [lit ''Bob'', lit ''0123456789''], AddBirthday [lit ''Bob'', lit ''29.02.2020''],
      Add [lit ''Cid'', lit ''0123456789''], AddBirthday [lit ''Cid'', lit ''01.01.2000'']]"

text \<open>
  A book for Wednesday, 30 December 2026: a birthday on the Saturday after the new year,
  one on the day before today, and one on the day itself.
\<close>

definition newyear_book :: AddressBook where
  "newyear_book =
     [(lit ''Gus'', \<lparr>name = lit ''Gus'', phones = [lit ''0123456789''],
         birthday = Some \<lparr>year = 1999, month = 1, day = 2\<rparr>\<rparr>),
      (lit ''Hal'', \<lparr>name = lit ''Hal'', phones = [lit ''0123456789''],
         birthday = Some \<lparr>year = 1980, month = 12, day = 29\<rparr>\<rparr>),
      (lit ''Ivy'', \<lparr>name = lit ''Ivy'', phones = [lit ''0123456789''],
         birthday = Some \<lparr>year = 2001, month = 12, day = 30\<rparr>\<rparr>)]"

definition newyear_birthdays :: birthdays where
  "newyear_birthdays = [(lit ''Monday'', [lit ''Gus'']), (lit ''Wednesday'', [lit ''Ivy''])]"

text \<open>
  The strict form \<open>DD.MM.YYYY\<close> as the specification words it: ten characters, two
  ASCII digits, a dot, two ASCII digits, a dot, four ASCII digits; and the date that such
  a string denotes.
\<close>

definition strict_form :: "pystr \<Rightarrow> bool" where
  "strict_form s =
     (length s = 10 \<and> s ! 2 = 46 \<and> s ! 5 = 46
      \<and> list_all ascii_digit (take 2 s @ take 2 (drop 3 s) @ drop 6 s))"

definition digits_value :: "pystr \<Rightarrow> int" where
  "digits_value ds = foldl (\<lambda>n c. 10 * n + (int c - 48)) 0 ds"

definition strict_date :: "pystr \<Rightarrow> date" where
  "strict_date s =
     \<lparr>year = digits_value (drop 6 s), month = digits_value (take 2 (drop 3 s)),
      day = digits_value (take 2 s)\<rparr>"

text \<open>
  The texts that \<open>Birthday\<close> accepts, in words: a day, a dot, a month, a dot and a
  year, and nothing else. The day is written with two digits (01 to 31), with one digit
  (1 to 9), or with a blank and one digit; the month with two digits (01 to 12) or with
  one digit; the year with exactly four decimal digits. The digits are ASCII digits,
  except that the year, and the second digit of a day from 10 to 29, may be any Unicode
  decimal digit. \<open>fields\<close> cuts a string at its first two dots.
\<close>

fun split_at_dot :: "pystr \<Rightarrow> (pystr \<times> pystr) option" where
  "split_at_dot [] = None"
| "split_at_dot (c # cs) =
     (if c = 46 then Some ([], cs)
      else (case split_at_dot cs of None \<Rightarrow> None | Some (x, r) \<Rightarrow> Some (c # x, r)))"

definition fields :: "pystr \<Rightarrow> (pystr \<times> pystr \<times> pystr) option" where
  "fields s =
     (case split_at_dot s of
        None \<Rightarrow> None
      | Some (dd, r) \<Rightarrow>
          (case split_at_dot r of None \<Rightarrow> None | Some (mm, yy) \<Rightarrow> Some (dd, mm, yy)))"

definition nonzero_digit :: "nat \<Rightarrow> bool" where
  "nonzero_digit c = (49 \<le> c \<and> c \<le> 57)"

fun day_text :: "pystr \<Rightarrow> bool" where
  "day_text [a] = nonzero_digit a"
| "day_text [a, b] =
     ((a = 48 \<and> nonzero_digit b) \<or> ((a = 49 \<or> a = 50) \<and> isdecimal_char b)
      \<or> (a = 51 \<and> (b = 48 \<or> b = 49)) \<or> (a = 32 \<and> nonzero_digit b))"
| "day_text t = False"

fun month_text :: "pystr \<Rightarrow> bool" where
  "month_text [a] = nonzero_digit a"
| "month_text [a, b] = ((a = 48 \<and> nonzero_digit b) \<or> (a = 49 \<and> 48 \<le> b \<and> b \<le> 50))"
| "month_text t = False"

definition year_text :: "pystr \<Rightarrow> bool" where
  "year_text t = (length t = 4 \<and> list_all isdecimal_char t)"

definition accepted_form :: "pystr \<Rightarrow> bool" where
  "accepted_form s =
     (case fields s of
        None \<Rightarrow> False
      | Some (dd, mm, yy) \<Rightarrow> day_text dd \<and> month_text mm \<and> year_text yy)"

definition denoted_date :: "pystr \<Rightarrow> date" where
  "denoted_date s =
     (case fields s of
        None \<Rightarrow> \<lparr>year = 0, month = 0, day = 0\<rparr>
      | Some (dd, mm, yy) \<Rightarrow> \<lparr>year = py_int yy, month = py_int mm, day = py_int dd\<rparr>)"

section \<open>Properties of the field classes\<close>

lemma lit_simps: "lit [] = []" "lit (c # cs) = of_char c # lit cs"
  by (simp_all add: lit_def)

lemma ascii_isdecimal: "ascii_digit c \<Longrightarrow> isdecimal_char c"
  by (simp add: ascii_digit_def isdecimal_char_def decimal_ranges_def)

lemma ascii_decimal_value: "ascii_digit c \<Longrightarrow> decimal_value c = c - 48"
proof -
  assume "ascii_digit c"
  then have c: "48 \<le> c" "c \<le> 57"
    by (auto simp add: ascii_digit_def)
  then have "(c - 48) mod 10 = c - 48"
    by simp
  with c show ?thesis
    by (simp add: decimal_value_def decimal_ranges_def)
qed

lemma isdecimal_below_128: "c < 128 \<Longrightarrow> isdecimal_char c = ascii_digit c"
  by (simp add: ascii_digit_def isdecimal_char_def decimal_ranges_def)

lemma isdigit_char_below_128: "c < 128 \<Longrightarrow> isdigit_char c = ascii_digit c"
  by (simp add: isdigit_char_def isdecimal_below_128 other_digit_ranges_def)

lemma isdigit_char_superscript_two: "isdigit_char 178"
  by (simp add: isdigit_char_def other_digit_ranges_def)

lemma Phone_eq:
  "Phone s =
     (if length s = 10 \<and> list_all isdigit_char s then Inr s
      else Inl (ValueError (lit ''Invalid phone format'')))"
  by (auto simp add: Phone_def Phone_validate_def isdigit_def)

text \<open>
  Claim C3, as stated: \<open>Phone\<close> succeeds exactly on the strings of ten ASCII decimal
  digits. It fails on the code: \<open>str.isdigit\<close> also accepts digits outside ASCII, and
  the string of ten characters SUPERSCRIPT TWO (U+00B2) is stored as a phone.
\<close>

theorem Phone_not_ascii_only:
  "Phone [178, 178, 178, 178, 178, 178, 178, 178, 178, 178]
     = Inr [178, 178, 178, 178, 178, 178, 178, 178, 178, 178]
   \<and> \<not> (length [178, 178, 178, 178, 178, 178, 178, 178, 178, 178 :: nat] = 10
        \<and> list_all ascii_digit [178, 178, 178, 178, 178, 178, 178, 178, 178, 178])"
  by (simp add: Phone_eq isdigit_char_superscript_two ascii_digit_def)

text \<open>
  Claim C3, amended: \<open>Phone\<close> succeeds, storing the string unchanged, exactly when the
  string has ten characters and each is a digit in the sense of \<open>str.isdigit\<close>;
  every other string (the empty one too) fails with the validation error. On strings of
  ASCII characters that is: exactly ten ASCII decimal digits.
\<close>

theorem Phone_succeeds_iff_ten_digits:
  "Phone s =
     (if length s = 10 \<and> list_all isdigit_char s then Inr s
      else Inl (ValueError (lit ''Invalid phone format'')))
   \<and> ((\<forall>c \<in> set s. c < 128) \<longrightarrow>
        (Phone s = Inr s) = (length s = 10 \<and> list_all ascii_digit s))"
proof -
  have "list_all isdigit_char s = list_all ascii_digit s" if "\<forall>c \<in> set s. c < 128"
    using that by (induction s) (simp_all add: isdigit_char_below_128)
  then show ?thesis by (auto simp add: Phone_eq)
qed

theorem Phone_succeeds_iff_ten_digits_witness:
  "Phone (lit ''0123456789'') = Inr (lit ''0123456789'')
   \<and> length (lit ''0123456789'') = 10 \<and> list_all ascii_digit (lit ''0123456789'')
   \<and> Phone (lit ''12345'') = Inl (ValueError (lit ''Invalid phone format''))"
  using Phone_succeeds_iff_ten_digits [of "lit ''0123456789''"]
    Phone_succeeds_iff_ten_digits [of "lit ''12345''"]
  by (simp add: lit_simps isdigit_char_below_128 ascii_digit_def)

lemma new_date_error: "new_date y m d = Inl e \<Longrightarrow> \<exists>msg. e = ValueError msg"
  by (auto simp add: new_date_def split: if_splits)

lemma strptime_error: "strptime_dmY s = Inl e \<Longrightarrow> \<exists>msg. e = ValueError msg"
  by (auto simp add: strptime_dmY_def split: list.splits prod.splits if_splits
      dest: new_date_error)

lemma Birthday_eq:
  "Birthday s =
     (case strptime_dmY s of
        Inr d \<Rightarrow> Inr d
      | Inl e \<Rightarrow> Inl (ValueError (lit ''Invalid birthday format'')))"
  by (auto simp add: Birthday_def Birthday_validate_def split: sum.splits exn.splits
      dest: strptime_error)

lemmas strptime_eval = strptime_dmY_def format_regex_matches_def then_group_def alts_def
  re_d_def re_m_def re_Y_def re_dot_def List.map_filter_simps chr_is_def chr_in_def lit_simps
  isdecimal_char_def decimal_ranges_def py_int_def decimal_value_def new_date_def
  days_in_month_def is_leap_def DAYS_IN_MONTH_def MINYEAR_def MAXYEAR_def

lemma Phone_example: "Phone (lit ''0123456789'') = Inr (lit ''0123456789'')"
  by (simp add: Phone_eq lit_simps isdigit_char_below_128 ascii_digit_def)

lemma Phone_letter: "Phone (lit ''x'') = Inl (ValueError (lit ''Invalid phone format''))"
  by (simp add: Phone_eq lit_simps)

lemma Birthday_feb29:
  "Birthday (lit ''29.02.2020'') = Inr \<lparr>year = 2020, month = 2, day = 29\<rparr>"
  by (simp add: Birthday_eq strptime_eval)

section \<open>Properties of the bot functions\<close>

lemma snd_input_error: "snd (input_error oc) = snd oc"
  by (cases oc rule: input_error.cases) simp_all

lemma set_update_subset: "set (AList.update k v al) \<subseteq> insert (k, v) (set al)"
  by (induction al) auto

lemma set_delete_subset: "set (AList.delete k al) \<subseteq> set al"
  by (auto simp add: AList.delete_eq)

lemma keys_update_present:
  "map_of al k = Some v \<Longrightarrow> map fst (AList.update k v' al) = map fst al"
  by (induction al) (auto split: if_splits)

lemma snd_get_phone: "snd (get_phone args book) = book"
  by (simp add: get_phone_def split: sum.splits option.splits)

lemma snd_show_birthday: "snd (show_birthday p args book) = book"
  by (simp add: show_birthday_def split: sum.splits option.splits)

lemmas safely_defs = add_contact_safely_def change_contact_safely_def get_phone_safely_def
  add_birthday_safely_def show_birthday_safely_def

lemmas run_eval = run_def run_ops_def safely_defs add_contact_def change_contact_def
  get_phone_def add_birthday_body_def show_birthday_def unpack2_def index0_def add_phone_def
  add_birthday_def Record_init_def add_record_def delete_def lit_simps py_repr_def

subsection \<open>Records stay under their names\<close>

lemma names_are_keys_update:
  "names_are_keys book \<Longrightarrow> name r = k \<Longrightarrow> names_are_keys (AList.update k r book)"
  using set_update_subset [of k r book] by (auto simp add: names_are_keys_def)

lemma names_are_keys_lookup:
  "names_are_keys book \<Longrightarrow> map_of book k = Some r \<Longrightarrow> name r = k"
  by (auto simp add: names_are_keys_def dest: map_of_SomeD)

lemma add_phone_name: "add_phone r ph = Inr r' \<Longrightarrow> name r' = name r"
  by (auto simp add: add_phone_def split: sum.splits)

lemma add_birthday_name: "add_birthday r d = Inr r' \<Longrightarrow> name r' = name r"
  by (auto simp add: add_birthday_def split: sum.splits)

lemma names_are_keys_add_contact:
  "names_are_keys book \<Longrightarrow> names_are_keys (snd (add_contact args book))"
  by (auto simp add: add_contact_def add_record_def Record_init_def
      split: sum.splits prod.splits
      dest!: add_phone_name intro!: names_are_keys_update)

lemma names_are_keys_change_contact:
  "names_are_keys book \<Longrightarrow> names_are_keys (snd (change_contact args book))"
  by (auto simp add: change_contact_def
      split: sum.splits prod.splits option.splits list.splits
      dest: names_are_keys_lookup intro!: names_are_keys_update)

lemma names_are_keys_add_birthday:
  "names_are_keys book \<Longrightarrow> names_are_keys (snd (add_birthday_body args book))"
  by (auto simp add: add_birthday_body_def split: sum.splits prod.splits option.splits
      dest: names_are_keys_lookup add_birthday_name intro!: names_are_keys_update)

lemma names_are_keys_exec: "names_are_keys book \<Longrightarrow> names_are_keys (exec p c book)"
  by (cases c)
    (simp_all add: safely_defs snd_input_error snd_get_phone snd_show_birthday
      names_are_keys_add_contact names_are_keys_change_contact names_are_keys_add_birthday)

lemma names_are_keys_apply_op:
  "names_are_keys book \<Longrightarrow> names_are_keys (apply_op p opn book)"
proof (cases opn)
  case (AddRecord r)
  assume "names_are_keys book"
  then show ?thesis
    by (simp add: AddRecord add_record_def names_are_keys_update)
next
  case (Delete nm)
  assume "names_are_keys book"
  then show ?thesis
    using set_delete_subset [of nm book]
    by (auto simp add: Delete delete_def names_are_keys_def)
qed (simp_all add: names_are_keys_exec)

lemma names_are_keys_run_ops: "names_are_keys (run_ops p ops)"
  unfolding run_ops_def
  by (induction ops rule: rev_induct)
    (simp_all add: names_are_keys_def [of "[]"] names_are_keys_apply_op)

text \<open>
  Claim C8: in every book that the methods of \<open>AddressBook\<close> (\<open>add_record\<close> with any
  record, \<open>find\<close>, \<open>delete\<close>) and the bot functions build from the empty book, the name
  of every stored record is the key it is stored under.
\<close>

theorem record_name_is_its_key: "\<forall>(k, r) \<in> set (run_ops p ops). name r = k"
  using names_are_keys_run_ops [of p ops] by (simp add: names_are_keys_def)

theorem record_name_is_its_key_witness:
  "run_ops True
     [AddRecord \<lparr>name = lit ''Bob'', phones = [], birthday = None\<rparr>,
      UseCase (Add [lit ''Ann'', lit ''0123456789'']),
      Find (lit ''Ann''),
      UseCase (Change [lit ''Ann'', lit ''x'']),
      Delete (lit ''Bob'')]
   = [(lit ''Ann'', \<lparr>name = lit ''Ann'', phones = [lit ''x''], birthday = None\<rparr>)]
   \<and> name \<lparr>name = lit ''Ann'', phones = [lit ''x''], birthday = None\<rparr> = lit ''Ann''"
  using record_name_is_its_key [of True
     "[AddRecord \<lparr>name = lit ''Bob'', phones = [], birthday = None\<rparr>,
      UseCase (Add [lit ''Ann'', lit ''0123456789'']),
      Find (lit ''Ann''),
      UseCase (Change [lit ''Ann'', lit ''x'']),
      Delete (lit ''Bob'')]"]
  by (simp add: run_eval Phone_example [simplified lit_simps, simplified])

subsection \<open>Records keep a phone\<close>

lemma has_phones_update:
  "has_phones book \<Longrightarrow> phones r \<noteq> [] \<Longrightarrow> has_phones (AList.update k r book)"
  using set_update_subset [of k r book] by (auto simp add: has_phones_def)

lemma has_phones_lookup:
  "has_phones book \<Longrightarrow> map_of book k = Some r \<Longrightarrow> phones r \<noteq> []"
  by (auto simp add: has_phones_def dest: map_of_SomeD)

lemma add_phone_phones: "add_phone r ph = Inr r' \<Longrightarrow> phones r' \<noteq> []"
  by (auto simp add: add_phone_def split: sum.splits)

lemma add_birthday_phones: "add_birthday r d = Inr r' \<Longrightarrow> phones r' = phones r"
  by (auto simp add: add_birthday_def split: sum.splits)

lemma has_phones_add_contact:
  "has_phones book \<Longrightarrow> has_phones (snd (add_contact args book))"
  by (auto simp add: add_contact_def add_record_def
      split: sum.splits prod.splits
      dest!: add_phone_phones intro!: has_phones_update)

lemma has_phones_change_contact:
  "has_phones book \<Longrightarrow> has_phones (snd (change_contact args book))"
  by (auto simp add: change_contact_def
      split: sum.splits prod.splits option.splits list.splits
      intro!: has_phones_update)

lemma has_phones_add_birthday:
  "has_phones book \<Longrightarrow> has_phones (snd (add_birthday_body args book))"
proof -
  assume hp: "has_phones book"
  have "has_phones (AList.update nm r' book)"
    if "map_of book nm = Some r" and "add_birthday r d = Inr r'" for nm r r' d
    using hp that by (metis add_birthday_phones has_phones_lookup has_phones_update)
  with hp show ?thesis
    by (auto simp add: add_birthday_body_def split: sum.splits prod.splits option.splits)
qed

lemma has_phones_exec: "has_phones book \<Longrightarrow> has_phones (exec p c book)"
  by (cases c)
    (simp_all add: safely_defs snd_input_error snd_get_phone snd_show_birthday
      has_phones_add_contact has_phones_change_contact has_phones_add_birthday)

lemma has_phones_run: "has_phones (run p cmds)"
  unfolding run_def
  by (induction cmds rule: rev_induct) (simp_all add: has_phones_def [of "[]"] has_phones_exec)

lemma collect_contact_lines:
  "has_phones book \<Longrightarrow> \<exists>ls. collect (map contact_line book) = Inr ls"
proof (induction book)
  case Nil
  then show ?case by simp
next
  case (Cons kv book)
  then have "has_phones book" and "phones (snd kv) \<noteq> []"
    by (auto simp add: has_phones_def)
  with Cons.IH show ?case
    by (cases "phones (snd kv)") (auto simp add: contact_line_def index0_def)
qed

lemma show_all_contacts_returns:
  "has_phones book \<Longrightarrow> \<exists>out. show_all_contacts book = Inr out"
  using collect_contact_lines [of book] by (auto simp add: show_all_contacts_def)

text \<open>
  Claim C10: in every book that the bot functions alone build from the empty book, every
  record has a phone; so \<open>show_all_contacts\<close> returns, \<open>get_phone\<close> returns the first
  phone of a stored name and \<open>change_contact\<close> updates it: none of them indexes an empty
  list.
\<close>

theorem use_cases_keep_a_phone:
  "(\<forall>(k, r) \<in> set (run p cmds). phones r \<noteq> [])
   \<and> (\<exists>out. show_all_contacts (run p cmds) = Inr out)
   \<and> (\<forall>nm r. map_of (run p cmds) nm = Some r \<longrightarrow>
         get_phone (nm # args) (run p cmds) = (Inr (hd (phones r)), run p cmds)
         \<and> fst (change_contact [nm, new] (run p cmds)) = Inr (lit ''Contact updated.''))"
proof -
  have hp: "has_phones (run p cmds)"
    by (rule has_phones_run)
  have "get_phone (nm # args) (run p cmds) = (Inr (hd (phones r)), run p cmds)
        \<and> fst (change_contact [nm, new] (run p cmds)) = Inr (lit ''Contact updated.'')"
    if "map_of (run p cmds) nm = Some r" for nm r
  proof -
    from hp that have "phones r \<noteq> []"
      by (rule has_phones_lookup)
    with that show ?thesis
      by (cases "phones r") (simp_all add: get_phone_def change_contact_def index0_def unpack2_def)
  qed
  with hp show_all_contacts_returns [OF hp] show ?thesis
    by (simp add: has_phones_def)
qed

theorem use_cases_keep_a_phone_witness:
  "run True [Add [lit ''Bob'', lit ''0123456789''], Add [lit ''Ann''],
             Change [lit ''Bob'', lit ''x''], AddBirthday [lit ''Bob'', lit ''29.02.2020'']]
   = [(lit ''Bob'', \<lparr>name = lit ''Bob'', phones = [lit ''x''],
         birthday = Some \<lparr>year = 2020, month = 2, day = 29\<rparr>\<rparr>)]
   \<and> show_all_contacts
       [(lit ''Bob'', \<lparr>name = lit ''Bob'', phones = [lit ''x''],
          birthday = Some \<lparr>year = 2020, month = 2, day = 29\<rparr>\<rparr>)] = Inr (lit ''Bob: x'')
   \<and> fst (get_phone [lit ''Bob'']
       [(lit ''Bob'', \<lparr>name = lit ''Bob'', phones = [lit ''x''],
          birthday = Some \<lparr>year = 2020, month = 2, day = 29\<rparr>\<rparr>)]) = Inr (lit ''x'')"
  using use_cases_keep_a_phone [of True
     "[Add [lit ''Bob'', lit ''0123456789''], Add [lit ''Ann''],
       Change [lit ''Bob'', lit ''x''], AddBirthday [lit ''Bob'', lit ''29.02.2020'']]"
     "[]" "lit ''y''"]
  by (simp add: run_eval show_all_contacts_def contact_line_def
      Phone_example [simplified lit_simps, simplified]
      Birthday_feb29 [simplified lit_simps, simplified])

subsection \<open>Adding and changing a contact\<close>

lemma bob_book_reachable:
  "run p [Add [lit ''Bob'', lit ''0123456789''], AddBirthday [lit ''Bob'', lit ''29.02.2020'']]
   = bob_book"
  by (simp add: run_eval bob_book_def Phone_example [simplified lit_simps, simplified]
      Birthday_feb29 [simplified lit_simps, simplified])

lemma add_contact_existing:
  "map_of book nm = Some r \<Longrightarrow>
   add_contact [nm, ph] book = (Inl (KeyError (lit ''Contact already exists.'')), book)
   \<and> add_contact_safely [nm, ph] book = (py_repr (lit ''Contact already exists.''), book)"
  by (simp add: add_contact_safely_def add_contact_def unpack2_def)

lemma add_contact_new:
  "map_of book nm = None \<Longrightarrow> Phone ph = Inr ph \<Longrightarrow>
   add_contact_safely [nm, ph] book
     = (lit ''Contact added.'', book @ [(nm, \<lparr>name = nm, phones = [ph], birthday = None\<rparr>)])"
proof -
  assume "map_of book nm = None"
  then have "AList.update nm v book = book @ [(nm, v)]" for v :: Record
    by (induction book) (auto split: if_splits)
  moreover assume "Phone ph = Inr ph"
  ultimately show ?thesis
    using \<open>map_of book nm = None\<close>
    by (simp add: add_contact_safely_def add_contact_def unpack2_def add_phone_def
        Record_init_def add_record_def)
qed

text \<open>
  Claim C6 at a book that holds the name already: the book stays as it is, but the
  string returned is the \<open>repr\<close> of the message, with single quotes around it, not
  the message \<open>Contact already exists.\<close> itself: \<open>str\<close> of a
  \<open>KeyError\<close> quotes its argument.
\<close>

theorem add_contact_existing_returns_quoted_message:
  "add_contact_safely [lit ''Bob'', lit ''0123456789''] bob_book
     = ([39] @ lit ''Contact already exists.'' @ [39], bob_book)
   \<and> fst (add_contact_safely [lit ''Bob'', lit ''0123456789''] bob_book)
       \<noteq> lit ''Contact already exists.''"
proof -
  have "map_of bob_book (lit ''Bob'')
        = Some \<lparr>name = lit ''Bob'', phones = [lit ''0123456789''],
            birthday = Some \<lparr>year = 2020, month = 2, day = 29\<rparr>\<rparr>"
    by (simp add: bob_book_def)
  then show ?thesis
    by (simp add: add_contact_existing py_repr_def lit_simps)
qed

lemma change_contact_present:
  assumes "map_of book nm = Some r" and "phones r = p # ps"
  shows "change_contact_safely [nm, new] book
           = (lit ''Contact updated.'', AList.update nm (r\<lparr>phones := new # ps\<rparr>) book)"
  using assms by (simp add: change_contact_safely_def change_contact_def unpack2_def)

lemma change_contact_absent:
  "map_of book nm = None \<Longrightarrow>
   change_contact [nm, new] book = (Inl (KeyError (lit ''Contact not found.'')), book)
   \<and> change_contact_safely [nm, new] book = (py_repr (lit ''Contact not found.''), book)"
  by (simp add: change_contact_safely_def change_contact_def unpack2_def)

text \<open>
  When the name is stored with a non-empty phone list, \<open>change_contact\<close> returns the
  confirmation and the book differs in this only: the first phone of that record is the
  new string, whatever it is (\<open>Phone\<close> is not consulted); the other phones, the name and
  the birthday of the record, every other entry and the order of the keys stay.
\<close>

lemma change_contact_frame:
  assumes "map_of book nm = Some r" and "phones r = p # ps"
  shows "\<exists>book' r'. change_contact_safely [nm, new] book = (lit ''Contact updated.'', book')
         \<and> map_of book' nm = Some r'
         \<and> phones r' = new # ps \<and> name r' = name r \<and> birthday r' = birthday r
         \<and> (\<forall>k. k \<noteq> nm \<longrightarrow> map_of book' k = map_of book k)
         \<and> map fst book' = map fst book"
proof -
  let ?r' = "r\<lparr>phones := new # ps\<rparr>"
  let ?book' = "AList.update nm ?r' book"
  from assms have "change_contact_safely [nm, new] book = (lit ''Contact updated.'', ?book')"
    by (simp add: change_contact_present)
  moreover have "map_of ?book' nm = Some ?r'"
    by (simp add: AList.update_conv')
  moreover have "\<forall>k. k \<noteq> nm \<longrightarrow> map_of ?book' k = map_of book k"
    by (simp add: AList.update_conv')
  moreover from assms have "map fst ?book' = map fst book"
    by (simp add: keys_update_present)
  ultimately show ?thesis
    by (intro exI [of _ ?book'] exI [of _ ?r']) simp
qed

lemma change_contact_invalid_phone:
  "Phone (lit ''x'') = Inl (ValueError (lit ''Invalid phone format''))
   \<and> change_contact_safely [lit ''Bob'', lit ''x''] bob_book
       = (lit ''Contact updated.'',
          [(lit ''Bob'', \<lparr>name = lit ''Bob'', phones = [lit ''x''],
              birthday = Some \<lparr>year = 2020, month = 2, day = 29\<rparr>\<rparr>)])"
  by (simp add: Phone_letter [simplified lit_simps, simplified] bob_book_def run_eval)

text \<open>
  Claim C7 at a name that is not stored: the book stays as it is, but the string that
  the use case returns is the \<open>repr\<close> of the message, with single quotes around it, not
  the message \<open>Contact not found.\<close> itself: \<open>str\<close> of a \<open>KeyError\<close> quotes its argument.
  The other half of the claim holds (\<open>change_contact_frame\<close>).
\<close>

theorem change_contact_absent_returns_quoted_message:
  "change_contact_safely [lit ''Ann'', lit ''0123456789''] bob_book
     = ([39] @ lit ''Contact not found.'' @ [39], bob_book)
   \<and> fst (change_contact_safely [lit ''Ann'', lit ''0123456789''] bob_book)
       \<noteq> lit ''Contact not found.''"
proof -
  have "map_of bob_book (lit ''Ann'') = None"
    by (simp add: bob_book_def lit_simps)
  then show ?thesis
    by (simp add: change_contact_absent py_repr_def lit_simps)
qed

subsection \<open>The functions without the wrapper\<close>

text \<open>
  Claim C5 at two calls: \<open>show_birthdays_next_week\<close> and \<open>show_all_contacts\<close> are not
  wrapped by \<open>input_error\<close>. With a contact born on 29 February, which the commands
  \<open>add\<close> and \<open>add-birthday\<close> store, \<open>show_birthdays_next_week\<close> raises \<open>ValueError\<close> on
  any day of a year that is not a leap year; \<open>show_all_contacts\<close> raises \<open>IndexError\<close>
  on a book with a record without phones (stored by \<open>add_record\<close>).
\<close>

theorem unwrapped_functions_raise:
  "show_birthdays_next_week \<lparr>year = 2025, month = 1, day = 1\<rparr>
     (run True [Add [lit ''Bob'', lit ''0123456789''],
                AddBirthday [lit ''Bob'', lit ''29.02.2020'']])
     = Inl (ValueError (lit ''day is out of range for month''))
   \<and> show_all_contacts (add_record [] (Record_init (lit ''Bob'')))
     = Inl (IndexError (lit ''list index out of range''))"
proof -
  have "show_birthdays_next_week \<lparr>year = 2025, month = 1, day = 1\<rparr> bob_book
        = Inl (ValueError (lit ''day is out of range for month''))"
    by (simp add: show_birthdays_next_week_def get_birthdays_per_week_def bob_book_def
        next_birthday_def replace_year_def new_date_def days_in_month_def is_leap_def
        DAYS_IN_MONTH_def MINYEAR_def MAXYEAR_def)
  moreover have "show_all_contacts (add_record [] (Record_init (lit ''Bob'')))
        = Inl (IndexError (lit ''list index out of range''))"
    by (simp add: show_all_contacts_def add_record_def Record_init_def contact_line_def
        index0_def)
  ultimately show ?thesis
    by (simp add: bob_book_reachable)
qed

section \<open>Properties of the calendar\<close>

lemma div_step:
  fixes y k :: int
  assumes "0 < k"
  shows "y div k = (y - 1) div k + (if y mod k = 0 then 1 else 0)"
proof (cases "y mod k = 0")
  case True
  have "y - 1 = k * (y div k - 1) + (k - 1)"
    using True
    by (simp add: algebra_simps) (metis True mult.commute mult_div_mod_eq add.right_neutral)
  then have "(y - 1) div k = y div k - 1"
    using assms by (intro int_div_pos_eq [where r = "k - 1"]) simp_all
  with True show ?thesis by simp
next
  case False
  have "0 \<le> y mod k" "y mod k < k"
    using assms by simp_all
  with False have r: "0 \<le> y mod k - 1" "y mod k - 1 < k"
    by simp_all
  have "y - 1 = k * (y div k) + (y mod k - 1)"
    by simp
  then have "(y - 1) div k = y div k"
    using r by (intro int_div_pos_eq [where r = "y mod k - 1"]) simp_all
  with False show ?thesis by simp
qed

lemma leap_divisors:
  fixes y :: int
  shows "y mod 400 = 0 \<Longrightarrow> y mod 100 = 0" and "y mod 100 = 0 \<Longrightarrow> y mod 4 = 0"
proof -
  have "(100::int) dvd 400" and "(4::int) dvd 100"
    by simp_all
  then show "y mod 400 = 0 \<Longrightarrow> y mod 100 = 0" and "y mod 100 = 0 \<Longrightarrow> y mod 4 = 0"
    unfolding mod_eq_0_iff_dvd by (blast intro: dvd_trans)+
qed

lemma leap_count:
  fixes y d4 d100 d400 q4 q100 q400 :: int
  assumes "d4 = q4 + (if A then 1 else 0)"
    and "d100 = q100 + (if B then 1 else 0)"
    and "d400 = q400 + (if C then 1 else 0)"
    and "C \<Longrightarrow> B" and "B \<Longrightarrow> A"
  shows "y * 365 + d4 - d100 + d400
         = (y - 1) * 365 + q4 - q100 + q400 + 365 + (if A \<and> (\<not> B \<or> C) then 1 else 0)"
proof -
  have "(y - 1) * 365 = y * 365 - 365"
    by (simp add: left_diff_distrib)
  with assms show ?thesis
    by (cases A; cases B; cases C; simp)
qed

lemma days_before_year_next:
  "days_before_year (y + 1) = days_before_year y + 365 + (if is_leap y then 1 else 0)"
proof -
  have "days_before_year (y + 1) = y * 365 + y div 4 - y div 100 + y div 400"
    by (simp only: days_before_year_def add_diff_cancel_right')
  also have "\<dots> = (y - 1) * 365 + (y - 1) div 4 - (y - 1) div 100 + (y - 1) div 400 + 365
                + (if y mod 4 = 0 \<and> (\<not> y mod 100 = 0 \<or> y mod 400 = 0) then 1 else 0)"
    by (rule leap_count [OF div_step div_step div_step leap_divisors]) simp_all
  finally show ?thesis
    by (simp only: days_before_year_def is_leap_def)
qed

lemma days_before_year_mono: "a \<le> b \<Longrightarrow> days_before_year a \<le> days_before_year b"
proof (induction b rule: int_ge_induct)
  case base
  then show ?case by (simp only: order_refl)
next
  case (step i)
  have "days_before_year i \<le> days_before_year (i + 1)"
    by (simp only: days_before_year_next split: if_splits) simp
  with step.IH show ?case
    by (rule order_trans)
qed

lemma month_cases:
  "1 \<le> m \<Longrightarrow> m \<le> 12 \<Longrightarrow>
   m = 1 \<or> m = 2 \<or> m = 3 \<or> m = 4 \<or> m = 5 \<or> m = 6 \<or> m = 7 \<or> m = 8 \<or> m = 9 \<or> m = 10
     \<or> m = 11 \<or> m = (12::int)"
  by arith

lemmas month_tables = days_in_month_def days_before_month_def DAYS_IN_MONTH_def
  DAYS_BEFORE_MONTH_def

lemma day_of_year_bounds:
  assumes "1 \<le> m" and "m \<le> 12" and "1 \<le> d" and "d \<le> days_in_month y m"
  shows "1 \<le> days_before_month y m + d"
    and "days_before_month y m + d \<le> 365 + (if is_leap y then 1 else 0)"
  using month_cases [OF assms(1,2)] assms(3,4)
  by (auto simp add: month_tables split: if_splits)

lemma month_end_before_next:
  assumes "1 \<le> m" and "m < m'" and "m' \<le> 12"
  shows "days_before_month y m + days_in_month y m \<le> days_before_month y m'"
proof -
  have "m \<le> 12" and "1 \<le> m'"
    using assms by simp_all
  from month_cases [OF assms(1) this(1)] month_cases [OF this(2) assms(3)] assms(2)
  show ?thesis
    by (elim disjE) (simp_all add: month_tables)
qed

lemma toordinal_strict_mono:
  assumes "valid_date a" and "valid_date b" and "date_less a b"
  shows "toordinal a < toordinal b"
proof -
  from assms(1) have a: "1 \<le> month a" "month a \<le> 12" "1 \<le> day a"
      "day a \<le> days_in_month (year a) (month a)"
    by (simp_all add: valid_date_def)
  from assms(2) have b: "1 \<le> month b" "month b \<le> 12" "1 \<le> day b"
      "day b \<le> days_in_month (year b) (month b)"
    by (simp_all add: valid_date_def)
  consider "year a < year b"
    | "year a = year b" "month a < month b"
    | "year a = year b" "month a = month b" "day a < day b"
    using assms(3) by (auto simp add: date_less_def)
  then show ?thesis
  proof cases
    case 1
    have "toordinal a \<le> days_before_year (year a + 1)"
      using day_of_year_bounds(2) [OF a]
      by (simp add: toordinal_def ymd2ord_def days_before_year_next)
    also have "\<dots> \<le> days_before_year (year b)"
      using 1 by (intro days_before_year_mono) simp
    also have "\<dots> < toordinal b"
      using day_of_year_bounds(1) [OF b] by (simp add: toordinal_def ymd2ord_def)
    finally show ?thesis .
  next
    case 2
    have "days_before_month (year a) (month a) + day a
          \<le> days_before_month (year a) (month a) + days_in_month (year a) (month a)"
      using a(4) by simp
    also have "\<dots> \<le> days_before_month (year a) (month b)"
      using a(1) 2(2) b(2) by (rule month_end_before_next)
    finally show ?thesis
      using 2(1) b(3) by (simp add: toordinal_def ymd2ord_def)
  next
    case 3
    then show ?thesis
      by (simp add: toordinal_def ymd2ord_def)
  qed
qed

lemma toordinal_mono:
  assumes "valid_date a" and "valid_date b" and "\<not> date_less b a"
  shows "toordinal a \<le> toordinal b"
proof (cases "date_less a b")
  case True
  with assms show ?thesis
    by (simp add: toordinal_strict_mono less_imp_le)
next
  case False
  with assms(3) have "year a = year b \<and> month a = month b \<and> day a = day b"
    by (auto simp add: date_less_def)
  then show ?thesis
    by (simp add: toordinal_def)
qed

lemma new_date_valid: "new_date y m d = Inr x \<Longrightarrow> valid_date x \<and> year x = y \<and> month x = m \<and> day x = d"
  by (auto simp add: new_date_def valid_date_def split: if_splits)

lemma new_date_of_valid: "valid_date x \<Longrightarrow> new_date (year x) (month x) (day x) = Inr x"
  by (simp add: new_date_def valid_date_def)

lemma weekday_example: "weekday \<lparr>year = 2024, month = 1, day = 1\<rparr> = 0"
  by (simp add: weekday_def toordinal_def ymd2ord_def days_before_year_def month_tables
      is_leap_def)

section \<open>Properties of \<open>get_birthdays_per_week\<close>\<close>

lemma next_birthday_error: "next_birthday today bd = Inl e \<Longrightarrow> \<exists>msg. e = ValueError msg"
  by (auto simp add: next_birthday_def replace_year_def
      split: sum.splits if_splits dest: new_date_error)

lemma next_birthday_not_before:
  assumes "valid_date today" and "next_birthday today bd = Inr nb"
  shows "0 \<le> days_between nb today"
proof (cases "replace_year bd (year today)")
  case (Inl e)
  with assms(2) show ?thesis
    by (simp add: next_birthday_def)
next
  case (Inr bty)
  show ?thesis
  proof (cases "date_less bty today")
    case True
    with Inr assms(2) have "new_date (year today + 1) (month bd) (day bd) = Inr nb"
      by (simp add: next_birthday_def replace_year_def)
    then have "valid_date nb" and "year nb = year today + 1"
      by (simp_all add: new_date_valid)
    then have "toordinal today < toordinal nb"
      using assms(1) by (intro toordinal_strict_mono) (simp_all add: date_less_def)
    then show ?thesis
      by (simp add: days_between_def)
  next
    case False
    with Inr assms(2) have "nb = bty"
      by (simp add: next_birthday_def)
    moreover from Inr have "valid_date bty"
      by (simp add: replace_year_def new_date_valid)
    ultimately have "toordinal today \<le> toordinal nb"
      using assms(1) False by (intro toordinal_mono) simp_all
    then show ?thesis
      by (simp add: days_between_def)
  qed
qed

lemma next_birthday_today:
  assumes "valid_date today" and "month bd = month today" and "day bd = day today"
  shows "next_birthday today bd = Inr today"
  using assms
  by (simp add: next_birthday_def replace_year_def new_date_of_valid date_less_def)

lemma names_in_append_name: "names_in (append_name bs wd nm) = insert nm (names_in bs)"
  unfolding names_in_def append_name_def
  by (induction bs) (auto split: option.splits)

lemma group_append_name:
  "group (append_name bs wd nm) key = (if key = wd then insert nm (group bs wd) else group bs key)"
  by (simp add: group_def append_name_def AList.update_conv' split: option.splits)

lemma loop_names:
  "birthdays_loop today rs bs = Inr bs' \<Longrightarrow>
   names_in bs' = names_in bs \<union> name ` {r \<in> set rs. in_window today r}"
proof (induction rs arbitrary: bs)
  case Nil
  then show ?case by simp
next
  case (Cons r rs)
  show ?case
  proof (cases "birthday r")
    case None
    with Cons show ?thesis
      by (auto simp add: in_window_def)
  next
    case (Some bd)
    show ?thesis
    proof (cases "next_birthday today bd")
      case (Inl e)
      with Some Cons.prems show ?thesis by simp
    next
      case (Inr nb)
      show ?thesis
      proof (cases "days_between nb today < 7")
        case True
        with Some Inr Cons.prems
        have "birthdays_loop today rs (append_name bs (weekday_key nb) (name r)) = Inr bs'"
          by simp
        from Cons.IH [OF this] Some Inr True show ?thesis
          by (auto simp add: names_in_append_name in_window_def)
      next
        case False
        with Some Inr Cons.prems have "birthdays_loop today rs bs = Inr bs'"
          by simp
        from Cons.IH [OF this] Some Inr False show ?thesis
          by (auto simp add: in_window_def)
      qed
    qed
  qed
qed

lemma loop_no_error:
  "birthdays_loop today rs bs = Inr bs' \<Longrightarrow> r \<in> set rs \<Longrightarrow> birthday r = Some bd \<Longrightarrow>
   \<exists>nb. next_birthday today bd = Inr nb"
  by (induction rs arbitrary: bs) (auto split: option.splits sum.splits if_splits)

lemma loop_raises:
  "r \<in> set rs \<Longrightarrow> birthday r = Some bd \<Longrightarrow> next_birthday today bd = Inl e \<Longrightarrow>
   \<exists>msg. birthdays_loop today rs bs = Inl (ValueError msg)"
  by (induction rs arbitrary: bs)
    (auto split: option.splits sum.splits if_splits dest: next_birthday_error)

lemma loop_group_mono:
  "birthdays_loop today rs bs = Inr bs' \<Longrightarrow> x \<in> group bs key \<Longrightarrow> x \<in> group bs' key"
proof (induction rs arbitrary: bs)
  case Nil
  then show ?case by simp
next
  case (Cons r rs)
  have step: "x \<in> group (append_name bs wd nm) key" for wd nm
    using Cons.prems(2) by (auto simp add: group_append_name)
  from Cons.prems(1) show ?case
    by (auto split: option.splits sum.splits if_splits
        intro: Cons.IH [OF _ Cons.prems(2)] Cons.IH [OF _ step])
qed

lemma loop_group:
  "birthdays_loop today rs bs = Inr bs' \<Longrightarrow> r \<in> set rs \<Longrightarrow> birthday r = Some bd \<Longrightarrow>
   next_birthday today bd = Inr nb \<Longrightarrow> days_between nb today < 7 \<Longrightarrow>
   name r \<in> group bs' (weekday_key nb)"
proof (induction rs arbitrary: bs)
  case Nil
  then show ?case by simp
next
  case (Cons r' rs)
  show ?case
  proof (cases "r = r'")
    case True
    with Cons.prems
    have "birthdays_loop today rs (append_name bs (weekday_key nb) (name r)) = Inr bs'"
      by simp
    moreover have "name r \<in> group (append_name bs (weekday_key nb) (name r)) (weekday_key nb)"
      by (simp add: group_append_name)
    ultimately show ?thesis
      by (rule loop_group_mono)
  next
    case False
    with Cons.prems(2) have "r \<in> set rs"
      by simp
    with Cons.prems(1) show ?thesis
      by (auto split: option.splits sum.splits if_splits
          intro: Cons.IH [OF _ _ Cons.prems(3,4,5)])
  qed
qed

lemma included_record_in_window:
  assumes "birthdays_loop today rs [] = Inr bs" and "distinct (map name rs)"
    and "r \<in> set rs" and "name r \<in> names_in bs"
  shows "in_window today r"
proof -
  from loop_names [OF assms(1)] assms(4)
  obtain r' where r': "r' \<in> set rs" "in_window today r'" "name r' = name r"
    by (auto simp add: names_in_def)
  from assms(2) have "inj_on name (set rs)"
    by (simp add: distinct_map)
  with r'(1,3) assms(3) have "r' = r"
    by (auto dest: inj_onD)
  with r'(2) show ?thesis
    by simp
qed

lemmas date_eval = next_birthday_def replace_year_def new_date_def date_less_def
  days_between_def toordinal_def ymd2ord_def days_before_year_def month_tables is_leap_def
  weekday_def weekday_key_def strftime_A_def day_names_def valid_date_def MINYEAR_def
  MAXYEAR_def

lemma week_book_birthdays:
  "get_birthdays_per_week \<lparr>year = 2026, month = 11, day = 4\<rparr> week_book = Inr week_birthdays"
  by (simp add: get_birthdays_per_week_def week_book_def week_birthdays_def date_eval
      append_name_def lit_simps)

lemma newyear_book_birthdays:
  "get_birthdays_per_week \<lparr>year = 2026, month = 12, day = 30\<rparr> newyear_book
   = Inr newyear_birthdays"
  by (simp add: get_birthdays_per_week_def newyear_book_def newyear_birthdays_def date_eval
      append_name_def lit_simps)

subsection \<open>The next occurrence\<close>

lemma valid_feb29_leap:
  "valid_date d \<Longrightarrow> month d = 2 \<Longrightarrow> day d = 29 \<Longrightarrow> is_leap (year d)"
  by (simp add: valid_date_def days_in_month_def DAYS_IN_MONTH_def split: if_splits)

lemma day_in_every_year:
  assumes "valid_date bd" and "month bd = 2 \<and> day bd = 29 \<longrightarrow> is_leap y"
  shows "day bd \<le> days_in_month y (month bd)"
proof (cases "month bd = 2")
  case True
  with assms(1) have "day bd \<le> 29" and "day bd \<noteq> 29 \<longrightarrow> day bd \<le> 28"
    by (simp_all add: valid_date_def days_in_month_def DAYS_IN_MONTH_def split: if_splits)
  with True assms(2) show ?thesis
    by (auto simp add: days_in_month_def DAYS_IN_MONTH_def)
next
  case False
  with assms(1) show ?thesis
    by (simp add: valid_date_def days_in_month_def)
qed

lemma replace_year_occurs:
  assumes "valid_date bd" and "MINYEAR \<le> y" and "occurs_in y bd"
  shows "replace_year bd y = Inr \<lparr>year = y, month = month bd, day = day bd\<rparr>"
proof -
  from assms(1,3) have "day bd \<le> days_in_month y (month bd)"
    by (intro day_in_every_year) (simp_all add: occurs_in_def)
  with assms show ?thesis
    by (simp add: replace_year_def new_date_def valid_date_def occurs_in_def)
qed

lemma replace_year_returns:
  assumes "replace_year bd y = Inr x"
  shows "x = \<lparr>year = y, month = month bd, day = day bd\<rparr> \<and> occurs_in y bd"
proof -
  from assms have x: "x = \<lparr>year = y, month = month bd, day = day bd\<rparr>"
    by (simp add: replace_year_def new_date_def split: if_splits)
  from assms have "valid_date x"
    by (simp add: replace_year_def new_date_valid)
  with x have "y \<le> MAXYEAR" and "month bd = 2 \<and> day bd = 29 \<longrightarrow> is_leap y"
    using valid_feb29_leap [of x] by (simp_all add: valid_date_def)
  with x show ?thesis
    by (simp add: occurs_in_def)
qed

lemma next_birthday_pinned:
  assumes "valid_date today" and "valid_date bd" and "birthday_occurs today bd"
  shows "next_birthday today bd = Inr (next_occurrence today bd)"
proof -
  let ?this_year = "\<lparr>year = year today, month = month bd, day = day bd\<rparr>"
  from assms(1) have years: "MINYEAR \<le> year today" "MINYEAR \<le> year today + 1"
    by (simp_all add: valid_date_def MINYEAR_def)
  from assms(3) have "occurs_in (year today) bd"
    by (simp add: birthday_occurs_def)
  with assms(2) years(1) have this_year: "replace_year bd (year today) = Inr ?this_year"
    by (rule replace_year_occurs)
  show ?thesis
  proof (cases "date_less ?this_year today")
    case True
    with assms(3) have "occurs_in (year today + 1) bd"
      by (simp add: birthday_occurs_def next_occurrence_def)
    with assms(2) years(2)
    have "replace_year bd (year today + 1)
          = Inr \<lparr>year = year today + 1, month = month bd, day = day bd\<rparr>"
      by (rule replace_year_occurs)
    with this_year True show ?thesis
      by (simp add: next_birthday_def next_occurrence_def)
  next
    case False
    with this_year show ?thesis
      by (simp add: next_birthday_def next_occurrence_def)
  qed
qed

lemma next_birthday_returns:
  assumes "next_birthday today bd = Inr nb"
  shows "nb = next_occurrence today bd \<and> birthday_occurs today bd"
proof -
  let ?this_year = "\<lparr>year = year today, month = month bd, day = day bd\<rparr>"
  from assms obtain x where x: "replace_year bd (year today) = Inr x"
    by (auto simp add: next_birthday_def split: sum.splits)
  from replace_year_returns [OF x]
  have this_year: "x = ?this_year" and occurs: "occurs_in (year today) bd"
    by simp_all
  show ?thesis
  proof (cases "date_less ?this_year today")
    case True
    with assms x this_year have "replace_year bd (year today + 1) = Inr nb"
      by (simp add: next_birthday_def)
    from replace_year_returns [OF this] True occurs show ?thesis
      by (simp add: birthday_occurs_def next_occurrence_def)
  next
    case False
    with assms x this_year have "nb = ?this_year"
      by (simp add: next_birthday_def)
    with occurs False show ?thesis
      by (simp add: birthday_occurs_def next_occurrence_def)
  qed
qed

lemma next_birthday_raises:
  assumes "\<not> birthday_occurs today bd"
  shows "\<exists>msg. next_birthday today bd = Inl (ValueError msg)"
proof (cases "next_birthday today bd")
  case (Inl e)
  then show ?thesis
    by (auto dest: next_birthday_error)
next
  case (Inr nb)
  with assms show ?thesis
    by (auto dest: next_birthday_returns)
qed

lemma next_occurrence_today:
  "month bd = month today \<Longrightarrow> day bd = day today \<Longrightarrow> next_occurrence today bd = today"
  by (simp add: next_occurrence_def date_less_def)

lemma loop_returns:
  assumes "\<And>r bd. r \<in> set rs \<Longrightarrow> birthday r = Some bd \<Longrightarrow>
             \<exists>nb. next_birthday today bd = Inr nb"
  shows "\<exists>bs'. birthdays_loop today rs bs = Inr bs'"
  using assms
proof (induction rs arbitrary: bs)
  case Nil
  show ?case by simp
next
  case (Cons r rs)
  have rest: "\<exists>bs'. birthdays_loop today rs bs0 = Inr bs'" for bs0
    by (rule Cons.IH) (rule Cons.prems, simp_all)
  show ?case
  proof (cases "birthday r")
    case None
    with rest show ?thesis
      by simp
  next
    case (Some bd)
    with Cons.prems [of r bd] obtain nb where "next_birthday today bd = Inr nb"
      by auto
    with Some rest show ?thesis
      by simp
  qed
qed

subsection \<open>Books built by the commands\<close>

text \<open>
  In a book that the commands build from the empty book, every birthday is a calendar
  date and no two records have the same name.
\<close>

lemma Birthday_valid: "Birthday s = Inr d \<Longrightarrow> valid_date d"
proof -
  assume "Birthday s = Inr d"
  then have "strptime_dmY s = Inr d"
    by (simp add: Birthday_eq split: sum.splits)
  then show "valid_date d"
    by (auto simp add: strptime_dmY_def split: list.splits prod.splits if_splits
        dest: new_date_valid)
qed

lemma valid_birthdays_update:
  "valid_birthdays book \<Longrightarrow> (case birthday r of None \<Rightarrow> True | Some bd \<Rightarrow> valid_date bd) \<Longrightarrow>
   valid_birthdays (AList.update k r book)"
  using set_update_subset [of k r book] by (auto simp add: valid_birthdays_def)

lemma valid_birthdays_lookup:
  "valid_birthdays book \<Longrightarrow> map_of book k = Some r \<Longrightarrow>
   (case birthday r of None \<Rightarrow> True | Some bd \<Rightarrow> valid_date bd)"
  by (auto simp add: valid_birthdays_def dest: map_of_SomeD)

lemma valid_birthdays_add_contact:
  "valid_birthdays book \<Longrightarrow> valid_birthdays (snd (add_contact args book))"
  by (auto simp add: add_contact_def add_record_def add_phone_def Record_init_def
      split: sum.splits prod.splits intro!: valid_birthdays_update)

lemma valid_birthdays_change_contact:
  "valid_birthdays book \<Longrightarrow> valid_birthdays (snd (change_contact args book))"
proof -
  assume vb: "valid_birthdays book"
  have "valid_birthdays (AList.update nm (r\<lparr>phones := ps\<rparr>) book)"
    if "map_of book nm = Some r" for nm r ps
    using vb valid_birthdays_lookup [OF vb that] by (intro valid_birthdays_update) simp_all
  with vb show ?thesis
    by (auto simp add: change_contact_def
        split: sum.splits prod.splits option.splits list.splits)
qed

lemma valid_birthdays_add_birthday:
  "valid_birthdays book \<Longrightarrow> valid_birthdays (snd (add_birthday_body args book))"
proof -
  assume vb: "valid_birthdays book"
  have "valid_birthdays (AList.update nm r' book)" if "add_birthday r d = Inr r'" for nm r r' d
  proof -
    from that obtain b where "Birthday d = Inr b" and "birthday r' = Some b"
      by (auto simp add: add_birthday_def split: sum.splits)
    with vb show ?thesis
      by (intro valid_birthdays_update) (simp_all add: Birthday_valid)
  qed
  with vb show ?thesis
    by (auto simp add: add_birthday_body_def split: sum.splits prod.splits option.splits)
qed

lemma valid_birthdays_exec: "valid_birthdays book \<Longrightarrow> valid_birthdays (exec p c book)"
  by (cases c)
    (simp_all add: safely_defs snd_input_error snd_get_phone snd_show_birthday
      valid_birthdays_add_contact valid_birthdays_change_contact valid_birthdays_add_birthday)

lemma distinct_keys_exec:
  "distinct (map fst book) \<Longrightarrow> distinct (map fst (exec p c book))"
proof (cases c)
  case (Add args)
  assume "distinct (map fst book)"
  then show ?thesis
    by (auto simp add: Add add_contact_safely_def snd_input_error add_contact_def
        add_record_def distinct_update split: sum.splits prod.splits)
next
  case (Change args)
  assume "distinct (map fst book)"
  then show ?thesis
    by (auto simp add: Change change_contact_safely_def snd_input_error change_contact_def
        distinct_update split: sum.splits prod.splits option.splits list.splits)
next
  case (AddBirthday args)
  assume "distinct (map fst book)"
  then show ?thesis
    by (auto simp add: AddBirthday add_birthday_safely_def snd_input_error
        add_birthday_body_def distinct_update split: sum.splits prod.splits option.splits)
qed (simp_all add: safely_defs snd_input_error snd_get_phone snd_show_birthday)

lemma names_of_keys:
  "names_are_keys book \<Longrightarrow> map (\<lambda>kv. name (snd kv)) book = map fst book"
  by (auto simp add: names_are_keys_def)

lemma run_book:
  "valid_birthdays (run p cmds) \<and> names_are_keys (run p cmds)
   \<and> distinct (map fst (run p cmds))"
  unfolding run_def
  by (induction cmds rule: rev_induct)
    (simp_all add: valid_birthdays_def [of "[]"] names_are_keys_def [of "[]"]
      valid_birthdays_exec names_are_keys_exec distinct_keys_exec)

lemma run_distinct_names: "distinct (map (\<lambda>kv. name (snd kv)) (run p cmds))"
  using run_book [of p cmds] by (simp add: names_of_keys)

lemma Birthday_jan1:
  "Birthday (lit ''01.01.2000'') = Inr \<lparr>year = 2000, month = 1, day = 1\<rparr>"
  by (simp add: Birthday_eq strptime_eval)

lemma feb_book_reachable: "run p feb_commands = feb_book"
  by (simp add: feb_commands_def run_eval feb_book_def
      Phone_example [simplified lit_simps, simplified]
      Birthday_feb29 [simplified lit_simps, simplified]
      Birthday_jan1 [simplified lit_simps, simplified])

subsection \<open>The seven days from today\<close>

lemma grouping_window:
  assumes "valid_date today"
    and "get_birthdays_per_week today book = Inr bs"
    and "distinct (map (\<lambda>kv. name (snd kv)) book)"
    and "(k, r) \<in> set book"
    and "birthday r = Some bd"
  shows "next_birthday today bd = Inr (next_occurrence today bd)
           \<and> 0 \<le> days_between (next_occurrence today bd) today
           \<and> (name r \<in> names_in bs \<longleftrightarrow> days_between (next_occurrence today bd) today < 7)"
proof -
  let ?rs = "map snd book"
  from assms(2) have loop: "birthdays_loop today ?rs [] = Inr bs"
    by (simp add: get_birthdays_per_week_def)
  from assms(3) have dist: "distinct (map name ?rs)"
    by (simp add: comp_def)
  from assms(4) have r: "r \<in> set ?rs"
    by force
  from loop_no_error [OF loop r assms(5)]
  obtain nb where "next_birthday today bd = Inr nb"
    by blast
  with next_birthday_returns [OF this]
  have nb: "next_birthday today bd = Inr (next_occurrence today bd)"
    by simp
  have not_before: "0 \<le> days_between (next_occurrence today bd) today"
    using assms(1) nb by (rule next_birthday_not_before)
  have window: "in_window today r \<longleftrightarrow> days_between (next_occurrence today bd) today < 7"
    using assms(5) nb by (simp add: in_window_def)
  have "name r \<in> names_in bs \<longleftrightarrow> in_window today r"
  proof
    assume "name r \<in> names_in bs"
    with loop dist r show "in_window today r"
      by (rule included_record_in_window)
  next
    assume "in_window today r"
    with r loop_names [OF loop] show "name r \<in> names_in bs"
      by auto
  qed
  with window nb not_before show ?thesis
    by simp
qed

lemma birthdays_occur_returns:
  assumes "valid_date today" and "valid_birthdays book" and "birthdays_occur today book"
  shows "\<exists>bs. get_birthdays_per_week today book = Inr bs"
  unfolding get_birthdays_per_week_def
proof (rule loop_returns)
  fix r bd
  assume "r \<in> set (map snd book)" and bd: "birthday r = Some bd"
  then obtain k where "(k, r) \<in> set book"
    by auto
  with assms(2,3) bd have "valid_date bd" and "birthday_occurs today bd"
    by (auto simp add: valid_birthdays_def birthdays_occur_def)
  with assms(1) have "next_birthday today bd = Inr (next_occurrence today bd)"
    by (rule next_birthday_pinned)
  then show "\<exists>nb. next_birthday today bd = Inr nb"
    by simp
qed

lemma birthdays_do_not_occur_raises:
  assumes "\<not> birthdays_occur today book"
  shows "\<exists>msg. get_birthdays_per_week today book = Inl (ValueError msg)"
proof -
  from assms obtain k r bd where "(k, r) \<in> set book" and bd: "birthday r = Some bd"
    and not_occurs: "\<not> birthday_occurs today bd"
    by (auto simp add: birthdays_occur_def split: option.splits)
  then have r: "r \<in> set (map snd book)"
    by force
  from next_birthday_raises [OF not_occurs]
  obtain msg where "next_birthday today bd = Inl (ValueError msg)"
    by blast
  from loop_raises [OF r bd this] show ?thesis
    by (simp add: get_birthdays_per_week_def)
qed

text \<open>
  Claim C1, as stated, does not hold: in the book that the commands \<open>add\<close> and
  \<open>add-birthday\<close> build for Bob, born on 29 February 2020, and Cid, born on
  1 January 2000, the next occurrence of the birthday of Cid is today on 1 January 2025,
  0 days ahead; but \<open>get_birthdays_per_week\<close> raises on the birthday of Bob and returns
  no result, so that the name of Cid is in no result.
\<close>

theorem birthday_today_is_lost_when_another_raises:
  "run True feb_commands = feb_book
   \<and> (lit ''Cid'', \<lparr>name = lit ''Cid'', phones = [lit ''0123456789''],
         birthday = Some \<lparr>year = 2000, month = 1, day = 1\<rparr>\<rparr>) \<in> set feb_book
   \<and> next_occurrence \<lparr>year = 2025, month = 1, day = 1\<rparr> \<lparr>year = 2000, month = 1, day = 1\<rparr>
       = \<lparr>year = 2025, month = 1, day = 1\<rparr>
   \<and> days_between \<lparr>year = 2025, month = 1, day = 1\<rparr> \<lparr>year = 2025, month = 1, day = 1\<rparr> = 0
   \<and> get_birthdays_per_week \<lparr>year = 2025, month = 1, day = 1\<rparr> feb_book
       = Inl (ValueError (lit ''day is out of range for month''))"
proof -
  have "get_birthdays_per_week \<lparr>year = 2025, month = 1, day = 1\<rparr> feb_book
        = Inl (ValueError (lit ''day is out of range for month''))"
    by (simp add: get_birthdays_per_week_def feb_book_def date_eval lit_simps)
  then show ?thesis
    by (simp add: feb_book_reachable next_occurrence_def date_less_def days_between_def
        feb_book_def)
qed

text \<open>
  Claim C1, amended: let today be a calendar date and the book hold calendar dates as
  birthdays under distinct names, as every book built by the commands does. When every
  birthday of the book occurs in the year of today and in the year of its next
  occurrence, \<open>get_birthdays_per_week\<close> returns a grouping, and for every record with a
  birthday: the code computes the next occurrence (the month and the day of the birthday
  in the year of today, in the following year only when that date is strictly before
  today); it is never before today; the name of the record is in the grouping if and
  only if the next occurrence is at least 0 and less than 7 days from today; and a
  birthday on the month and day of today has today as its next occurrence, 0 days ahead,
  and is included. When some birthday does not occur, the function raises
  \<open>ValueError\<close> and returns no grouping.
\<close>

theorem birthdays_within_seven_days:
  assumes "valid_date today"
    and "valid_birthdays book"
    and "distinct (map (\<lambda>kv. name (snd kv)) book)"
  shows "if birthdays_occur today book
         then \<exists>bs. get_birthdays_per_week today book = Inr bs
                \<and> (\<forall>(k, r) \<in> set book. \<forall>bd. birthday r = Some bd \<longrightarrow>
                     next_birthday today bd = Inr (next_occurrence today bd)
                     \<and> month (next_occurrence today bd) = month bd
                     \<and> day (next_occurrence today bd) = day bd
                     \<and> year (next_occurrence today bd)
                         = (if date_less \<lparr>year = year today, month = month bd, day = day bd\<rparr>
                                  today
                            then year today + 1 else year today)
                     \<and> 0 \<le> days_between (next_occurrence today bd) today
                     \<and> (name r \<in> names_in bs \<longleftrightarrow>
                          0 \<le> days_between (next_occurrence today bd) today
                          \<and> days_between (next_occurrence today bd) today < 7)
                     \<and> (month bd = month today \<and> day bd = day today \<longrightarrow>
                          next_occurrence today bd = today
                          \<and> days_between (next_occurrence today bd) today = 0
                          \<and> name r \<in> names_in bs))
         else \<exists>msg. get_birthdays_per_week today book = Inl (ValueError msg)"
proof (cases "birthdays_occur today book")
  case False
  then show ?thesis
    by (simp add: birthdays_do_not_occur_raises)
next
  case True
  with assms(1,2) obtain bs where bs: "get_birthdays_per_week today book = Inr bs"
    using birthdays_occur_returns by blast
  have "next_birthday today bd = Inr (next_occurrence today bd)
        \<and> month (next_occurrence today bd) = month bd
        \<and> day (next_occurrence today bd) = day bd
        \<and> year (next_occurrence today bd)
            = (if date_less \<lparr>year = year today, month = month bd, day = day bd\<rparr> today
               then year today + 1 else year today)
        \<and> 0 \<le> days_between (next_occurrence today bd) today
        \<and> (name r \<in> names_in bs \<longleftrightarrow>
             0 \<le> days_between (next_occurrence today bd) today
             \<and> days_between (next_occurrence today bd) today < 7)
        \<and> (month bd = month today \<and> day bd = day today \<longrightarrow>
             next_occurrence today bd = today
             \<and> days_between (next_occurrence today bd) today = 0
             \<and> name r \<in> names_in bs)"
    if "(k, r) \<in> set book" and "birthday r = Some bd" for k r bd
  proof -
    from grouping_window [OF assms(1) bs assms(3) that]
    have nb: "next_birthday today bd = Inr (next_occurrence today bd)"
      and not_before: "0 \<le> days_between (next_occurrence today bd) today"
      and iff: "name r \<in> names_in bs \<longleftrightarrow> days_between (next_occurrence today bd) today < 7"
      by simp_all
    have pinned: "month (next_occurrence today bd) = month bd"
      "day (next_occurrence today bd) = day bd"
      "year (next_occurrence today bd)
         = (if date_less \<lparr>year = year today, month = month bd, day = day bd\<rparr> today
            then year today + 1 else year today)"
      by (simp_all add: next_occurrence_def)
    have on_today: "next_occurrence today bd = today
        \<and> days_between (next_occurrence today bd) today = 0 \<and> name r \<in> names_in bs"
      if "month bd = month today \<and> day bd = day today"
    proof -
      from that have "next_occurrence today bd = today"
        by (simp add: next_occurrence_today)
      with iff show ?thesis
        by (simp add: days_between_def)
    qed
    from nb pinned not_before iff on_today show ?thesis
      by (simp add: days_between_def)
  qed
  with True bs show ?thesis
    by auto
qed

theorem birthdays_within_seven_days_witness:
  "valid_date \<lparr>year = 2026, month = 12, day = 30\<rparr>
   \<and> valid_birthdays newyear_book
   \<and> distinct (map (\<lambda>kv. name (snd kv)) newyear_book)
   \<and> birthdays_occur \<lparr>year = 2026, month = 12, day = 30\<rparr> newyear_book
   \<and> get_birthdays_per_week \<lparr>year = 2026, month = 12, day = 30\<rparr> newyear_book
       = Inr newyear_birthdays
   \<and> date_less \<lparr>year = 2026, month = 1, day = 2\<rparr> \<lparr>year = 2026, month = 12, day = 30\<rparr>
   \<and> next_birthday \<lparr>year = 2026, month = 12, day = 30\<rparr> \<lparr>year = 1999, month = 1, day = 2\<rparr>
       = Inr \<lparr>year = 2027, month = 1, day = 2\<rparr>
   \<and> days_between \<lparr>year = 2027, month = 1, day = 2\<rparr> \<lparr>year = 2026, month = 12, day = 30\<rparr> = 3
   \<and> lit ''Gus'' \<in> names_in newyear_birthdays
   \<and> date_less \<lparr>year = 2026, month = 12, day = 29\<rparr> \<lparr>year = 2026, month = 12, day = 30\<rparr>
   \<and> next_birthday \<lparr>year = 2026, month = 12, day = 30\<rparr> \<lparr>year = 1980, month = 12, day = 29\<rparr>
       = Inr \<lparr>year = 2027, month = 12, day = 29\<rparr>
   \<and> days_between \<lparr>year = 2027, month = 12, day = 29\<rparr> \<lparr>year = 2026, month = 12, day = 30\<rparr>
       = 364
   \<and> lit ''Hal'' \<notin> names_in newyear_birthdays
   \<and> next_birthday \<lparr>year = 2026, month = 12, day = 30\<rparr> \<lparr>year = 2001, month = 12, day = 30\<rparr>
       = Inr \<lparr>year = 2026, month = 12, day = 30\<rparr>
   \<and> lit ''Ivy'' \<in> names_in newyear_birthdays
   \<and> valid_date \<lparr>year = 2025, month = 1, day = 1\<rparr>
   \<and> valid_birthdays feb_book
   \<and> distinct (map (\<lambda>kv. name (snd kv)) feb_book)
   \<and> \<not> birthdays_occur \<lparr>year = 2025, month = 1, day = 1\<rparr> feb_book
   \<and> (\<exists>msg. get_birthdays_per_week \<lparr>year = 2025, month = 1, day = 1\<rparr> feb_book
         = Inl (ValueError msg))"
proof -
  let ?today = "\<lparr>year = 2026, month = 12, day = 30\<rparr>"
  let ?gus = "\<lparr>year = 1999, month = 1, day = 2\<rparr>"
  let ?hal = "\<lparr>year = 1980, month = 12, day = 29\<rparr>"
  let ?ivy = "\<lparr>year = 2001, month = 12, day = 30\<rparr>"
  have valid: "valid_date ?today"
    by (simp add: date_eval)
  have dates: "valid_birthdays newyear_book"
    by (simp add: valid_birthdays_def newyear_book_def date_eval)
  have dist: "distinct (map (\<lambda>kv. name (snd kv)) newyear_book)"
    by (simp add: newyear_book_def lit_simps)
  have occur: "birthdays_occur ?today newyear_book"
    by (simp add: birthdays_occur_def birthday_occurs_def occurs_in_def next_occurrence_def
        newyear_book_def date_eval)
  have gus: "(lit ''Gus'', \<lparr>name = lit ''Gus'', phones = [lit ''0123456789''],
         birthday = Some ?gus\<rparr>) \<in> set newyear_book"
    and hal: "(lit ''Hal'', \<lparr>name = lit ''Hal'', phones = [lit ''0123456789''],
         birthday = Some ?hal\<rparr>) \<in> set newyear_book"
    and ivy: "(lit ''Ivy'', \<lparr>name = lit ''Ivy'', phones = [lit ''0123456789''],
         birthday = Some ?ivy\<rparr>) \<in> set newyear_book"
    by (simp_all add: newyear_book_def)
  have occurrences: "next_occurrence ?today ?gus = \<lparr>year = 2027, month = 1, day = 2\<rparr>"
    "next_occurrence ?today ?hal = \<lparr>year = 2027, month = 12, day = 29\<rparr>"
    "next_occurrence ?today ?ivy = ?today"
    by (simp_all add: next_occurrence_def date_less_def)
  have differences:
    "days_between \<lparr>year = 2027, month = 1, day = 2\<rparr> ?today = 3"
    "days_between \<lparr>year = 2027, month = 12, day = 29\<rparr> ?today = 364"
    "days_between ?today ?today = 0"
    by (simp_all add: date_eval)
  from birthdays_within_seven_days [OF valid dates dist] occur
  obtain bs where bs: "get_birthdays_per_week ?today newyear_book = Inr bs"
    and records: "\<And>k r bd. (k, r) \<in> set newyear_book \<Longrightarrow> birthday r = Some bd \<Longrightarrow>
        next_birthday ?today bd = Inr (next_occurrence ?today bd)
        \<and> (name r \<in> names_in bs \<longleftrightarrow>
             0 \<le> days_between (next_occurrence ?today bd) ?today
             \<and> days_between (next_occurrence ?today bd) ?today < 7)
        \<and> (month bd = month ?today \<and> day bd = day ?today \<longrightarrow> name r \<in> names_in bs)"
    by (simp only: if_True) blast
  from bs have grouping: "bs = newyear_birthdays"
    by (simp add: newyear_book_birthdays)
  have valid': "valid_date \<lparr>year = 2025, month = 1, day = 1\<rparr>"
    by (simp add: date_eval)
  have dates': "valid_birthdays feb_book"
    by (simp add: valid_birthdays_def feb_book_def date_eval)
  have dist': "distinct (map (\<lambda>kv. name (snd kv)) feb_book)"
    by (simp add: feb_book_def lit_simps)
  have occur': "\<not> birthdays_occur \<lparr>year = 2025, month = 1, day = 1\<rparr> feb_book"
    by (simp add: birthdays_occur_def birthday_occurs_def occurs_in_def feb_book_def
        is_leap_def)
  from birthdays_within_seven_days [OF valid' dates' dist'] occur'
  have raises: "\<exists>msg. get_birthdays_per_week \<lparr>year = 2025, month = 1, day = 1\<rparr> feb_book
         = Inl (ValueError msg)"
    by (simp only: if_False)
  from records [OF gus] records [OF hal] records [OF ivy] occurrences differences
  have "next_birthday ?today ?gus = Inr \<lparr>year = 2027, month = 1, day = 2\<rparr>
      \<and> lit ''Gus'' \<in> names_in bs
      \<and> next_birthday ?today ?hal = Inr \<lparr>year = 2027, month = 12, day = 29\<rparr>
      \<and> lit ''Hal'' \<notin> names_in bs
      \<and> next_birthday ?today ?ivy = Inr ?today
      \<and> lit ''Ivy'' \<in> names_in bs"
    by simp
  with valid dates dist occur grouping differences valid' dates' dist' occur' raises
  show ?thesis
    by (simp add: newyear_book_birthdays date_less_def)
qed

text \<open>
  Claim C2: the name of a record that is included in the grouping stands under the key
  \<open>Monday\<close> when its next birthday falls on a Saturday or a Sunday (weekdays 5 and 6),
  and otherwise under the full name of the weekday of that date.
\<close>

theorem weekend_birthdays_under_Monday:
  assumes "get_birthdays_per_week today book = Inr bs"
    and "distinct (map (\<lambda>kv. name (snd kv)) book)"
    and "(k, r) \<in> set book"
    and "birthday r = Some bd"
    and "name r \<in> names_in bs"
  shows "\<exists>nb. next_birthday today bd = Inr nb
           \<and> (weekday nb = 5 \<or> weekday nb = 6 \<longrightarrow> name r \<in> group bs (lit ''Monday''))
           \<and> (weekday nb = 0 \<longrightarrow> name r \<in> group bs (lit ''Monday''))
           \<and> (weekday nb = 1 \<longrightarrow> name r \<in> group bs (lit ''Tuesday''))
           \<and> (weekday nb = 2 \<longrightarrow> name r \<in> group bs (lit ''Wednesday''))
           \<and> (weekday nb = 3 \<longrightarrow> name r \<in> group bs (lit ''Thursday''))
           \<and> (weekday nb = 4 \<longrightarrow> name r \<in> group bs (lit ''Friday''))"
proof -
  let ?rs = "map snd book"
  from assms(1) have loop: "birthdays_loop today ?rs [] = Inr bs"
    by (simp add: get_birthdays_per_week_def)
  from assms(2) have dist: "distinct (map name ?rs)"
    by (simp add: comp_def)
  from assms(3) have r: "r \<in> set ?rs"
    by force
  from loop dist r assms(5) have "in_window today r"
    by (rule included_record_in_window)
  with assms(4) obtain nb
    where nb: "next_birthday today bd = Inr nb" and near: "days_between nb today < 7"
    by (auto simp add: in_window_def split: sum.splits)
  from loop r assms(4) nb near have key: "name r \<in> group bs (weekday_key nb)"
    by (rule loop_group)
  have "weekday nb = 5 \<or> weekday nb = 6 \<longrightarrow> name r \<in> group bs (lit ''Monday'')"
    using key by (auto simp add: weekday_key_def)
  moreover have "weekday nb = 0 \<longrightarrow> name r \<in> group bs (lit ''Monday'')"
    using key by (auto simp add: weekday_key_def strftime_A_def day_names_def)
  moreover have "weekday nb = 1 \<longrightarrow> name r \<in> group bs (lit ''Tuesday'')"
    using key by (auto simp add: weekday_key_def strftime_A_def day_names_def)
  moreover have "weekday nb = 2 \<longrightarrow> name r \<in> group bs (lit ''Wednesday'')"
    using key by (auto simp add: weekday_key_def strftime_A_def day_names_def)
  moreover have "weekday nb = 3 \<longrightarrow> name r \<in> group bs (lit ''Thursday'')"
    using key by (auto simp add: weekday_key_def strftime_A_def day_names_def)
  moreover have "weekday nb = 4 \<longrightarrow> name r \<in> group bs (lit ''Friday'')"
    using key by (auto simp add: weekday_key_def strftime_A_def day_names_def)
  ultimately show ?thesis
    using nb by blast
qed

theorem weekend_birthdays_under_Monday_witness:
  "get_birthdays_per_week \<lparr>year = 2026, month = 11, day = 4\<rparr> week_book = Inr week_birthdays
   \<and> next_birthday \<lparr>year = 2026, month = 11, day = 4\<rparr> \<lparr>year = 1990, month = 11, day = 7\<rparr>
       = Inr \<lparr>year = 2026, month = 11, day = 7\<rparr>
   \<and> weekday \<lparr>year = 2026, month = 11, day = 7\<rparr> = 5
   \<and> lit ''Ann'' \<in> group week_birthdays (lit ''Monday'')
   \<and> next_birthday \<lparr>year = 2026, month = 11, day = 4\<rparr> \<lparr>year = 1985, month = 11, day = 6\<rparr>
       = Inr \<lparr>year = 2026, month = 11, day = 6\<rparr>
   \<and> weekday \<lparr>year = 2026, month = 11, day = 6\<rparr> = 4
   \<and> lit ''Bob'' \<in> group week_birthdays (lit ''Friday'')"
proof -
  have dist: "distinct (map (\<lambda>kv. name (snd kv)) week_book)"
    by (simp add: week_book_def lit_simps)
  have ann: "(lit ''Ann'', \<lparr>name = lit ''Ann'', phones = [lit ''0123456789''],
         birthday = Some \<lparr>year = 1990, month = 11, day = 7\<rparr>\<rparr>) \<in> set week_book"
    and bob: "(lit ''Bob'', \<lparr>name = lit ''Bob'', phones = [lit ''0123456789''],
         birthday = Some \<lparr>year = 1985, month = 11, day = 6\<rparr>\<rparr>) \<in> set week_book"
    by (simp_all add: week_book_def)
  have included: "lit ''Ann'' \<in> names_in week_birthdays" "lit ''Bob'' \<in> names_in week_birthdays"
    by (simp_all add: week_birthdays_def names_in_def)
  from weekend_birthdays_under_Monday [OF week_book_birthdays dist ann]
    weekend_birthdays_under_Monday [OF week_book_birthdays dist bob] included
  show ?thesis
    by (simp add: week_book_birthdays date_eval)
qed

lemma feb29_next_birthday_raises:
  assumes "month bd = 2" and "day bd = 29"
    and "\<not> is_leap (year today)
         \<or> (date_less \<lparr>year = year today, month = 2, day = 29\<rparr> today
             \<and> \<not> is_leap (year today + 1))"
  shows "\<exists>msg. next_birthday today bd = Inl (ValueError msg)"
proof -
  have bad: "\<exists>msg. new_date y 2 29 = Inl (ValueError msg)" if "\<not> is_leap y" for y
    using that by (simp add: new_date_def month_tables)
  show ?thesis
  proof (cases "is_leap (year today)")
    case False
    with bad [of "year today"] assms(1,2) show ?thesis
      by (auto simp add: next_birthday_def replace_year_def)
  next
    case True
    with assms(3)
    have less: "date_less \<lparr>year = year today, month = 2, day = 29\<rparr> today"
      and next_year: "\<not> is_leap (year today + 1)"
      by simp_all
    show ?thesis
    proof (cases "new_date (year today) 2 29")
      case (Inl e)
      with new_date_error [OF Inl] assms(1,2) show ?thesis
        by (auto simp add: next_birthday_def replace_year_def)
    next
      case (Inr d)
      from new_date_valid [OF Inr] have "d = \<lparr>year = year today, month = 2, day = 29\<rparr>"
        by simp
      with Inr less bad [OF next_year] assms(1,2) show ?thesis
        by (auto simp add: next_birthday_def replace_year_def)
    qed
  qed
qed

text \<open>
  Claim C9: when the book holds a record born on 29 February and the year the code
  computes for the birthday (the year of today, or the next one when 29 February of the
  year of today is before today) is not a leap year, \<open>get_birthdays_per_week\<close> raises the
  \<open>ValueError\<close> of the date constructor and returns no grouping.
\<close>

theorem feb29_in_common_year_raises:
  assumes "(k, r) \<in> set book"
    and "birthday r = Some bd"
    and "month bd = 2" and "day bd = 29"
    and "\<not> is_leap (year today)
         \<or> (date_less \<lparr>year = year today, month = 2, day = 29\<rparr> today
             \<and> \<not> is_leap (year today + 1))"
  shows "\<exists>msg. get_birthdays_per_week today book = Inl (ValueError msg)"
proof -
  from assms(1) have r: "r \<in> set (map snd book)"
    by force
  from feb29_next_birthday_raises [OF assms(3,4,5)]
  obtain msg where "next_birthday today bd = Inl (ValueError msg)"
    by blast
  from loop_raises [OF r assms(2) this] show ?thesis
    by (simp add: get_birthdays_per_week_def)
qed

theorem feb29_in_common_year_raises_witness:
  "\<not> is_leap 2025
   \<and> get_birthdays_per_week \<lparr>year = 2025, month = 1, day = 1\<rparr> bob_book
       = Inl (ValueError (lit ''day is out of range for month''))
   \<and> date_less \<lparr>year = 2024, month = 2, day = 29\<rparr> \<lparr>year = 2024, month = 3, day = 1\<rparr>
   \<and> get_birthdays_per_week \<lparr>year = 2024, month = 3, day = 1\<rparr> bob_book
       = Inl (ValueError (lit ''day is out of range for month''))
   \<and> get_birthdays_per_week \<lparr>year = 2024, month = 2, day = 27\<rparr> bob_book
       = Inr [(lit ''Thursday'', [lit ''Bob''])]"
  using
    feb29_in_common_year_raises [of "lit ''Bob''"
      "\<lparr>name = lit ''Bob'', phones = [lit ''0123456789''],
         birthday = Some \<lparr>year = 2020, month = 2, day = 29\<rparr>\<rparr>" bob_book
      "\<lparr>year = 2020, month = 2, day = 29\<rparr>" "\<lparr>year = 2025, month = 1, day = 1\<rparr>"]
    feb29_in_common_year_raises [of "lit ''Bob''"
      "\<lparr>name = lit ''Bob'', phones = [lit ''0123456789''],
         birthday = Some \<lparr>year = 2020, month = 2, day = 29\<rparr>\<rparr>" bob_book
      "\<lparr>year = 2020, month = 2, day = 29\<rparr>" "\<lparr>year = 2024, month = 3, day = 1\<rparr>"]
  by (simp add: get_birthdays_per_week_def bob_book_def date_eval append_name_def lit_simps)

section \<open>Properties of \<open>Birthday\<close>\<close>

lemma strict_form_cases:
  assumes "strict_form s"
  obtains a b c d e f g h where "s = [a, b, 46, c, d, 46, e, f, g, h]"
    and "ascii_digit a" "ascii_digit b" "ascii_digit c" "ascii_digit d"
    and "ascii_digit e" "ascii_digit f" "ascii_digit g" "ascii_digit h"
proof -
  from assms have "length s = 10"
    by (simp add: strict_form_def)
  then obtain a b p c d q e f g h where s: "s = [a, b, p, c, d, q, e, f, g, h]"
    by (auto simp add: numeral_eq_Suc length_Suc_conv)
  with assms have "p = 46" "q = 46" "ascii_digit a" "ascii_digit b" "ascii_digit c"
    "ascii_digit d" "ascii_digit e" "ascii_digit f" "ascii_digit g" "ascii_digit h"
    by (simp_all add: strict_form_def)
  with s that show thesis
    by simp
qed

lemma py_int_ascii: "list_all ascii_digit ds \<Longrightarrow> py_int ds = digits_value ds"
proof -
  assume ds: "list_all ascii_digit ds"
  then have "dropWhile (\<lambda>c. c = 32) ds = ds"
    by (cases ds) (simp_all add: ascii_digit_def)
  moreover have "foldl (\<lambda>n c. 10 * n + int (decimal_value c)) n ds
        = foldl (\<lambda>n c. 10 * n + (int c - 48)) n ds" for n
    using ds
  proof (induction ds arbitrary: n)
    case Nil
    then show ?case by simp
  next
    case (Cons c ds)
    then have "int (decimal_value c) = int c - 48"
      by (simp add: ascii_decimal_value ascii_digit_def)
    with Cons show ?case
      by simp
  qed
  ultimately show ?thesis
    by (simp add: py_int_def digits_value_def)
qed

lemma then_group_Nil: "then_group g [] = []"
  by (simp add: then_group_def)

lemma digit_cases:
  "ascii_digit a \<Longrightarrow>
   a = 48 \<or> a = 49 \<or> a = 50 \<or> a = 51 \<or> a = 52 \<or> a = 53 \<or> a = 54 \<or> a = 55 \<or> a = 56 \<or> a = 57"
  unfolding ascii_digit_def by arith

lemmas group_eval = then_group_def alts_def re_d_def re_m_def re_Y_def re_dot_def
  List.map_filter_simps chr_is_def chr_in_def

lemma not_decimal_dot: "\<not> isdecimal_char 46"
  by (simp add: isdecimal_char_def decimal_ranges_def)

lemma day_group:
  "then_group re_dot (then_group re_d [(gs, s)])
   = (case split_at_dot s of
        None \<Rightarrow> []
      | Some (dd, r) \<Rightarrow> if day_text dd then [(gs @ [dd, [46]], r)] else [])"
proof -
  consider "s = []" | a where "s = [a]" | a b where "s = [a, b]"
    | a b c t where "s = a # b # c # t"
    by (metis list.exhaust)
  then show ?thesis
  proof cases
    case 1
    then show ?thesis
      by (simp add: group_eval)
  next
    case 2
    then show ?thesis
      by (auto simp add: group_eval nonzero_digit_def)
  next
    case 3
    then show ?thesis
      by (auto simp add: group_eval nonzero_digit_def not_decimal_dot)
  next
    case 4
    then show ?thesis
      by (auto simp add: group_eval nonzero_digit_def not_decimal_dot split: option.splits)
  qed
qed

lemma month_group:
  "then_group re_dot (then_group re_m [(gs, s)])
   = (case split_at_dot s of
        None \<Rightarrow> []
      | Some (mm, r) \<Rightarrow> if month_text mm then [(gs @ [mm, [46]], r)] else [])"
proof -
  consider "s = []" | a where "s = [a]" | a b where "s = [a, b]"
    | a b c t where "s = a # b # c # t"
    by (metis list.exhaust)
  then show ?thesis
  proof cases
    case 1
    then show ?thesis
      by (simp add: group_eval)
  next
    case 2
    then show ?thesis
      by (auto simp add: group_eval nonzero_digit_def)
  next
    case 3
    then show ?thesis
      by (auto simp add: group_eval nonzero_digit_def)
  next
    case 4
    then show ?thesis
      by (auto simp add: group_eval nonzero_digit_def split: option.splits)
  qed
qed

lemma year_group:
  "then_group re_Y [(gs, s)]
   = (if 4 \<le> length s \<and> list_all isdecimal_char (take 4 s)
      then [(gs @ [take 4 s], drop 4 s)] else [])"
proof -
  consider "s = []" | e where "s = [e]" | e f where "s = [e, f]"
    | e f g where "s = [e, f, g]" | e f g h r where "s = e # f # g # h # r"
    by (metis list.exhaust)
  then show ?thesis
    by cases (auto simp add: group_eval)
qed

lemma match_day:
  assumes "ascii_digit a" and "ascii_digit b"
  shows "then_group re_dot (then_group re_d [(gs, a # b # 46 # rest)])
         = (if 1 \<le> digits_value [a, b] \<and> digits_value [a, b] \<le> 31
            then [(gs @ [[a, b], [46]], rest)] else [])"
proof -
  from assms(2) have b: "48 \<le> b" "b \<le> 57" "isdecimal_char b"
    by (simp_all add: ascii_digit_def ascii_isdecimal)
  from digit_cases [OF assms(1)] b show ?thesis
    by (elim disjE) (auto simp add: group_eval digits_value_def)
qed

lemma match_month:
  assumes "ascii_digit a" and "ascii_digit b"
  shows "then_group re_dot (then_group re_m [(gs, a # b # 46 # rest)])
         = (if 1 \<le> digits_value [a, b] \<and> digits_value [a, b] \<le> 12
            then [(gs @ [[a, b], [46]], rest)] else [])"
proof -
  from assms(2) have b: "48 \<le> b" "b \<le> 57"
    by (simp_all add: ascii_digit_def)
  from digit_cases [OF assms(1)] b show ?thesis
    by (elim disjE) (auto simp add: group_eval digits_value_def)
qed

lemma match_year:
  assumes "ascii_digit e" and "ascii_digit f" and "ascii_digit g" and "ascii_digit h"
  shows "then_group re_Y [(gs, [e, f, g, h])] = [(gs @ [[e, f, g, h]], [])]"
  using assms by (simp add: group_eval ascii_isdecimal)

lemma days_in_month_le_31: "1 \<le> m \<Longrightarrow> m \<le> 12 \<Longrightarrow> days_in_month y m \<le> 31"
  by (drule (1) month_cases) (auto simp add: month_tables)

lemma new_date_invalid:
  "\<not> valid_date \<lparr>year = y, month = m, day = d\<rparr> \<Longrightarrow> \<exists>msg. new_date y m d = Inl (ValueError msg)"
  by (auto simp add: new_date_def valid_date_def)

lemma strptime_strict:
  assumes "strict_form s"
  shows "strptime_dmY s = Inr (strict_date s) \<and> valid_date (strict_date s)
         \<or> (\<exists>msg. strptime_dmY s = Inl (ValueError msg)) \<and> \<not> valid_date (strict_date s)"
proof -
  from assms obtain a b c d e f g h where s: "s = [a, b, 46, c, d, 46, e, f, g, h]"
    and dg: "ascii_digit a" "ascii_digit b" "ascii_digit c" "ascii_digit d"
      "ascii_digit e" "ascii_digit f" "ascii_digit g" "ascii_digit h"
    by (rule strict_form_cases)
  let ?D = "digits_value [a, b]" and ?M = "digits_value [c, d]"
    and ?Y = "digits_value [e, f, g, h]"
  have date: "strict_date s = \<lparr>year = ?Y, month = ?M, day = ?D\<rparr>"
    by (simp add: strict_date_def s)
  have ints: "py_int [a, b] = ?D" "py_int [c, d] = ?M" "py_int [e, f, g, h] = ?Y"
    using dg by (simp_all add: py_int_ascii)
  show ?thesis
  proof (cases "1 \<le> ?D \<and> ?D \<le> 31 \<and> 1 \<le> ?M \<and> ?M \<le> 12")
    case True
    then have "format_regex_matches s = [([[a, b], [46], [c, d], [46], [e, f, g, h]], [])]"
      using dg by (simp add: format_regex_matches_def s match_day match_month match_year)
    then have parse: "strptime_dmY s = new_date ?Y ?M ?D"
      by (simp add: strptime_dmY_def ints)
    show ?thesis
    proof (cases "valid_date \<lparr>year = ?Y, month = ?M, day = ?D\<rparr>")
      case True
      with new_date_of_valid [OF True] parse date show ?thesis
        by simp
    next
      case False
      with new_date_invalid [OF False] parse date show ?thesis
        by simp
    qed
  next
    case False
    then have "format_regex_matches s = []"
      using dg
      by (auto simp add: format_regex_matches_def s match_day match_month then_group_Nil)
    then have "\<exists>msg. strptime_dmY s = Inl (ValueError msg)"
      by (simp add: strptime_dmY_def)
    moreover from False have "\<not> valid_date \<lparr>year = ?Y, month = ?M, day = ?D\<rparr>"
      using days_in_month_le_31 [of ?M ?Y] by (auto simp add: valid_date_def)
    ultimately show ?thesis
      using date by simp
  qed
qed

lemma fmt2_digits:
  assumes "ascii_digit a" and "ascii_digit b"
  shows "fmt2 (digits_value [a, b]) = [a, b]"
proof -
  define x y where "x = int a - 48" and "y = int b - 48"
  with assms have xy: "0 \<le> x" "x < 10" "0 \<le> y" "y < 10"
    by (simp_all add: ascii_digit_def)
  have n: "digits_value [a, b] = 10 * x + y"
    by (simp add: digits_value_def x_def y_def)
  from xy have "(10 * x + y) div 10 = x" "(10 * x + y) mod 10 = y" "x mod 10 = x"
    by simp_all
  then have "fmt2 (10 * x + y) = [48 + nat x, 48 + nat y]"
    by (simp add: fmt2_def digit_char_def)
  also from assms have "\<dots> = [a, b]"
    by (simp add: x_def y_def ascii_digit_def nat_diff_distrib')
  finally show ?thesis
    using n by simp
qed

lemma fmt4_digits:
  assumes "ascii_digit e" and "ascii_digit f" and "ascii_digit g" and "ascii_digit h"
  shows "fmt4 (digits_value [e, f, g, h]) = [e, f, g, h]"
    and "1000 \<le> digits_value [e, f, g, h] \<Longrightarrow> e \<noteq> 48"
proof -
  define w x y z where "w = int e - 48" and "x = int f - 48" and "y = int g - 48"
    and "z = int h - 48"
  with assms have r: "0 \<le> w" "w < 10" "0 \<le> x" "x < 10" "0 \<le> y" "y < 10" "0 \<le> z" "z < 10"
    by (simp_all add: ascii_digit_def)
  define p where "p = 10 * w + x"
  define q where "q = 10 * p + y"
  define n where "n = 10 * q + z"
  have n: "digits_value [e, f, g, h] = n"
    by (simp add: digits_value_def n_def q_def p_def w_def x_def y_def z_def)
  have d1: "n div 10 = q" and m1: "n mod 10 = z"
    using r unfolding n_def by simp_all
  have "q div 10 = p" and "q mod 10 = y"
    using r unfolding q_def by simp_all
  moreover have "n div 100 = n div 10 div 10"
    using zdiv_zmult2_eq [of 10 n 10] by simp
  ultimately have d2: "n div 100 = p" and m2: "n div 10 mod 10 = y"
    using d1 by simp_all
  have "p div 10 = w" and "p mod 10 = x"
    using r unfolding p_def by simp_all
  moreover have "n div 1000 = n div 100 div 10"
    using zdiv_zmult2_eq [of 10 n 100] by simp
  ultimately have d3: "n div 1000 = w" and m3: "n div 100 mod 10 = x"
    using d2 by simp_all
  from d3 r have m4: "n div 1000 mod 10 = w"
    by simp
  have "fmt4 n = [48 + nat w, 48 + nat x, 48 + nat y, 48 + nat z]"
    by (simp add: fmt4_def digit_char_def m1 m2 m3 m4)
  also from assms have "\<dots> = [e, f, g, h]"
    by (simp add: w_def x_def y_def z_def ascii_digit_def nat_diff_distrib')
  finally show "fmt4 (digits_value [e, f, g, h]) = [e, f, g, h]"
    using n by simp
  show "e \<noteq> 48" if "1000 \<le> digits_value [e, f, g, h]"
  proof
    assume "e = 48"
    then have "w = 0"
      by (simp add: w_def)
    with r have "n < 1000"
      by (simp add: n_def q_def p_def)
    with that n show False
      by simp
  qed
qed

lemma strftime_strict:
  assumes "strict_form s" and "pad_year \<or> 1000 \<le> year (strict_date s)"
  shows "strftime_dmY pad_year (strict_date s) = s"
proof -
  from assms(1) obtain a b c d e f g h where s: "s = [a, b, 46, c, d, 46, e, f, g, h]"
    and dg: "ascii_digit a" "ascii_digit b" "ascii_digit c" "ascii_digit d"
      "ascii_digit e" "ascii_digit f" "ascii_digit g" "ascii_digit h"
    by (rule strict_form_cases)
  have "fmt_year pad_year (digits_value [e, f, g, h]) = [e, f, g, h]"
  proof (cases pad_year)
    case True
    with dg show ?thesis
      by (simp add: fmt_year_def fmt4_digits(1))
  next
    case False
    with assms(2) have "1000 \<le> digits_value [e, f, g, h]"
      by (simp add: strict_date_def s)
    with dg have "e \<noteq> 48"
      by (intro fmt4_digits(2))
    with False dg show ?thesis
      by (simp add: fmt_year_def fmt4_digits(1))
  qed
  with dg show ?thesis
    by (simp add: strftime_dmY_def strict_date_def s fmt2_digits lit_simps)
qed

lemma strptime_fields:
  "strptime_dmY s =
     (case fields s of
        None \<Rightarrow> Inl (ValueError (lit ''time data does not match format''))
      | Some (dd, mm, yy) \<Rightarrow>
          if day_text dd \<and> month_text mm \<and> 4 \<le> length yy
             \<and> list_all isdecimal_char (take 4 yy)
          then (if drop 4 yy \<noteq> [] then Inl (ValueError (lit ''unconverted data remains''))
                else new_date (py_int (take 4 yy)) (py_int mm) (py_int dd))
          else Inl (ValueError (lit ''time data does not match format'')))"
proof (cases "split_at_dot s")
  case None
  with day_group [of "[]" s] have "format_regex_matches s = []"
    by (simp add: format_regex_matches_def then_group_Nil)
  with None show ?thesis
    by (simp add: strptime_dmY_def fields_def)
next
  case (Some p)
  then obtain dd r where s: "split_at_dot s = Some (dd, r)"
    by (cases p) simp
  show ?thesis
  proof (cases "day_text dd")
    case False
    with s day_group [of "[]" s] have "format_regex_matches s = []"
      by (simp add: format_regex_matches_def then_group_Nil)
    with s False show ?thesis
      by (auto simp add: strptime_dmY_def fields_def split: option.splits)
  next
    case True
    with s day_group [of "[]" s]
    have day: "format_regex_matches s
               = then_group re_Y (then_group re_dot (then_group re_m [([dd, [46]], r)]))"
      by (simp add: format_regex_matches_def)
    show ?thesis
    proof (cases "split_at_dot r")
      case None
      with day month_group [of "[dd, [46]]" r] have "format_regex_matches s = []"
        by (simp add: then_group_Nil)
      with s None show ?thesis
        by (simp add: strptime_dmY_def fields_def)
    next
      case (Some q)
      then obtain mm yy where r: "split_at_dot r = Some (mm, yy)"
        by (cases q) simp
      show ?thesis
      proof (cases "month_text mm")
        case False
        with day r month_group [of "[dd, [46]]" r] have "format_regex_matches s = []"
          by (simp add: then_group_Nil)
        with s r False show ?thesis
          by (simp add: strptime_dmY_def fields_def)
      next
        case month: True
        with day r month_group [of "[dd, [46]]" r]
        have "format_regex_matches s = then_group re_Y [([dd, [46], mm, [46]], yy)]"
          by simp
        then have "format_regex_matches s
                   = (if 4 \<le> length yy \<and> list_all isdecimal_char (take 4 yy)
                      then [([dd, [46], mm, [46], take 4 yy], drop 4 yy)] else [])"
          by (simp add: year_group)
        with s r True month show ?thesis
          by (simp add: strptime_dmY_def fields_def)
      qed
    qed
  qed
qed

lemma Birthday_accepted:
  "Birthday s =
     (if accepted_form s \<and> valid_date (denoted_date s) then Inr (denoted_date s)
      else Inl (ValueError (lit ''Invalid birthday format'')))"
proof (cases "fields s")
  case None
  then show ?thesis
    by (simp add: Birthday_eq strptime_fields accepted_form_def)
next
  case (Some t)
  then obtain dd mm yy where f: "fields s = Some (dd, mm, yy)"
    by (cases t) auto
  let ?d = "\<lparr>year = py_int yy, month = py_int mm, day = py_int dd\<rparr>"
  show ?thesis
  proof (cases "day_text dd \<and> month_text mm \<and> year_text yy")
    case True
    then have parse: "strptime_dmY s = new_date (py_int yy) (py_int mm) (py_int dd)"
      using f by (simp add: strptime_fields year_text_def)
    show ?thesis
    proof (cases "valid_date ?d")
      case valid: True
      from new_date_of_valid [OF valid] parse f True valid show ?thesis
        by (simp add: Birthday_eq accepted_form_def denoted_date_def)
    next
      case False
      from new_date_invalid [OF False] parse f False show ?thesis
        by (auto simp add: Birthday_eq accepted_form_def denoted_date_def)
    qed
  next
    case False
    then have "\<exists>msg. strptime_dmY s = Inl (ValueError msg)"
      using f by (auto simp add: strptime_fields year_text_def)
    with f False show ?thesis
      by (auto simp add: Birthday_eq accepted_form_def)
  qed
qed

lemma ascii_digit_char: "ascii_digit (digit_char (n mod 10))"
proof -
  define m where "m = n mod 10"
  then have "0 \<le> m" and "m < 10"
    by simp_all
  then have "nat m \<le> 9"
    by linarith
  then show ?thesis
    by (simp add: ascii_digit_def digit_char_def m_def)
qed

lemma strict_form_strftime: "strict_form (strftime_dmY True d)"
  by (simp add: strict_form_def strftime_dmY_def fmt2_def fmt4_def fmt_year_def lit_simps
      ascii_digit_char)

lemma Birthday_strict:
  assumes "strict_form s"
  shows "Birthday s = (if valid_date (strict_date s) then Inr (strict_date s)
                       else Inl (ValueError (lit ''Invalid birthday format'')))"
  using strptime_strict [OF assms] by (auto simp add: Birthday_eq)

lemma Birthday_short:
  "Birthday (lit ''1.1.2020'') = Inr \<lparr>year = 2020, month = 1, day = 1\<rparr>"
  by (simp add: Birthday_eq strptime_eval)

lemma Birthday_blank:
  "Birthday (lit '' 1.01.2020'') = Inr \<lparr>year = 2020, month = 1, day = 1\<rparr>"
  by (simp add: Birthday_eq strptime_eval)

lemma Birthday_arabic_digit:
  "Birthday [49, 1637, 46, 48, 49, 46, 50, 48, 50, 48]
   = Inr \<lparr>year = 2020, month = 1, day = 15\<rparr>"
  by (simp add: Birthday_eq strptime_eval)

text \<open>
  Claim C4, as stated: \<open>Birthday\<close> succeeds only on strings in the strict form
  \<open>DD.MM.YYYY\<close>, and formatting the stored date gives the input back. It fails on the
  code in three ways, all from \<open>strptime\<close>: a day and a month of one digit are taken
  (\<open>1.1.2020\<close>, formatted back as \<open>01.01.2020\<close>), a blank may stand for the first digit
  of the day, and a digit may be a decimal digit outside ASCII (here ARABIC-INDIC DIGIT
  FIVE, U+0665, in the day 15).
\<close>

theorem Birthday_accepts_more_than_strict_form:
  "Birthday (lit ''1.1.2020'') = Inr \<lparr>year = 2020, month = 1, day = 1\<rparr>
   \<and> \<not> strict_form (lit ''1.1.2020'')
   \<and> strftime_dmY True \<lparr>year = 2020, month = 1, day = 1\<rparr> = lit ''01.01.2020''
   \<and> strftime_dmY False \<lparr>year = 2020, month = 1, day = 1\<rparr> = lit ''01.01.2020''
   \<and> lit ''01.01.2020'' \<noteq> lit ''1.1.2020''
   \<and> Birthday (lit '' 1.01.2020'') = Inr \<lparr>year = 2020, month = 1, day = 1\<rparr>
   \<and> \<not> strict_form (lit '' 1.01.2020'')
   \<and> Birthday [49, 1637, 46, 48, 49, 46, 50, 48, 50, 48]
       = Inr \<lparr>year = 2020, month = 1, day = 15\<rparr>
   \<and> \<not> strict_form [49, 1637, 46, 48, 49, 46, 50, 48, 50, 48]"
  by (simp add: Birthday_short Birthday_blank Birthday_arabic_digit)
    (simp add: strict_form_def strftime_dmY_def fmt2_def fmt4_def fmt_year_def digit_char_def
      lit_simps ascii_digit_def)

text \<open>
  Claim C4, amended: \<open>Birthday\<close> succeeds if and only if the string is a day, a dot, a
  month, a dot and a year and nothing else, that denote a valid calendar date (years 0001
  to 9999), and it stores that date; here the day is two digits (01 to 31), one digit (1
  to 9) or a blank and one digit, the month is two digits (01 to 12) or one digit, the year
  is exactly four decimal digits, and the year and the second digit of a day from 10 to 29
  may be decimal digits outside ASCII. Every other string fails with the validation
  error. On a string in the strict form \<open>DD.MM.YYYY\<close> it succeeds exactly when the date
  is valid. Whenever it succeeds, formatting the stored date with the same pattern gives
  the input back if and only if the input is in the strict form (for a year below 1000
  only where the C library pads \<open>%Y\<close> to four digits).
\<close>

theorem Birthday_succeeds_iff_accepted_form:
  "Birthday s =
     (if accepted_form s \<and> valid_date (denoted_date s) then Inr (denoted_date s)
      else Inl (ValueError (lit ''Invalid birthday format'')))
   \<and> (strict_form s \<longrightarrow>
        Birthday s = (if valid_date (strict_date s) then Inr (strict_date s)
                      else Inl (ValueError (lit ''Invalid birthday format''))))
   \<and> (Birthday s = Inr d \<longrightarrow>
        valid_date d \<and> (strftime_dmY True d = s \<longleftrightarrow> strict_form s))
   \<and> (Birthday s = Inr d \<and> strict_form s \<and> 1000 \<le> year d \<longrightarrow>
        strftime_dmY pad_year d = s)"
proof (intro conjI impI)
  show "Birthday s =
     (if accepted_form s \<and> valid_date (denoted_date s) then Inr (denoted_date s)
      else Inl (ValueError (lit ''Invalid birthday format'')))"
    by (rule Birthday_accepted)
next
  assume "strict_form s"
  then show "Birthday s = (if valid_date (strict_date s) then Inr (strict_date s)
                           else Inl (ValueError (lit ''Invalid birthday format'')))"
    by (rule Birthday_strict)
next
  assume "Birthday s = Inr d"
  then show "valid_date d"
    by (rule Birthday_valid)
next
  assume b: "Birthday s = Inr d"
  show "strftime_dmY True d = s \<longleftrightarrow> strict_form s"
  proof
    assume "strftime_dmY True d = s"
    with strict_form_strftime [of d] show "strict_form s"
      by simp
  next
    assume form: "strict_form s"
    with b have "d = strict_date s"
      by (simp add: Birthday_strict split: if_splits)
    with form show "strftime_dmY True d = s"
      by (simp add: strftime_strict)
  qed
next
  assume a: "Birthday s = Inr d \<and> strict_form s \<and> 1000 \<le> year d"
  then have b: "Birthday s = Inr d" and form: "strict_form s"
    by simp_all
  then have "d = strict_date s"
    by (simp add: Birthday_strict split: if_splits)
  with a form show "strftime_dmY pad_year d = s"
    by (simp add: strftime_strict)
qed

theorem Birthday_succeeds_iff_accepted_form_witness:
  "strict_form (lit ''29.02.2020'')
   \<and> Birthday (lit ''29.02.2020'') = Inr \<lparr>year = 2020, month = 2, day = 29\<rparr>
   \<and> strftime_dmY True \<lparr>year = 2020, month = 2, day = 29\<rparr> = lit ''29.02.2020''
   \<and> strftime_dmY False \<lparr>year = 2020, month = 2, day = 29\<rparr> = lit ''29.02.2020''
   \<and> strict_form (lit ''31.02.2021'')
   \<and> Birthday (lit ''31.02.2021'') = Inl (ValueError (lit ''Invalid birthday format''))
   \<and> \<not> accepted_form (lit '''')
   \<and> Birthday (lit '''') = Inl (ValueError (lit ''Invalid birthday format''))
   \<and> \<not> accepted_form (lit ''2021.02.01'')
   \<and> Birthday (lit ''2021.02.01'') = Inl (ValueError (lit ''Invalid birthday format''))
   \<and> \<not> accepted_form (lit ''01.01.2020xyz'')
   \<and> Birthday (lit ''01.01.2020xyz'') = Inl (ValueError (lit ''Invalid birthday format''))
   \<and> \<not> accepted_form (lit ''01-01-2020'')
   \<and> Birthday (lit ''01-01-2020'') = Inl (ValueError (lit ''Invalid birthday format''))"
proof -
  let ?d = "\<lparr>year = 2020, month = 2, day = 29\<rparr>"
  have form: "strict_form (lit ''29.02.2020'')" "strict_form (lit ''31.02.2021'')"
    by (simp_all add: strict_form_def lit_simps ascii_digit_def)
  have dates: "strict_date (lit ''29.02.2020'') = ?d"
    "strict_date (lit ''31.02.2021'') = \<lparr>year = 2021, month = 2, day = 31\<rparr>"
    by (simp_all add: strict_date_def digits_value_def lit_simps)
  have valid: "valid_date ?d" "\<not> valid_date \<lparr>year = 2021, month = 2, day = 31\<rparr>"
    by (simp_all add: date_eval)
  have rejected: "\<not> accepted_form (lit '''')" "\<not> accepted_form (lit ''2021.02.01'')"
    "\<not> accepted_form (lit ''01.01.2020xyz'')" "\<not> accepted_form (lit ''01-01-2020'')"
    by (simp_all add: accepted_form_def fields_def year_text_def lit_simps)
  note char = Birthday_succeeds_iff_accepted_form [THEN conjunct1]
  note strict = Birthday_succeeds_iff_accepted_form [THEN conjunct2, THEN conjunct1]
  note reformat = Birthday_succeeds_iff_accepted_form [THEN conjunct2, THEN conjunct2, THEN conjunct2]
  have feb: "Birthday (lit ''29.02.2020'') = Inr ?d"
    using strict [of "lit ''29.02.2020''"] form dates valid by simp
  have round_trip: "strftime_dmY True ?d = lit ''29.02.2020''"
    "strftime_dmY False ?d = lit ''29.02.2020''"
    using reformat [of "lit ''29.02.2020''" ?d True] reformat [of "lit ''29.02.2020''" ?d False]
      feb form
    by simp_all
  have invalid: "Birthday (lit ''31.02.2021'') = Inl (ValueError (lit ''Invalid birthday format''))"
    using strict [of "lit ''31.02.2021''"] form dates valid by simp
  have fails: "Birthday (lit '''') = Inl (ValueError (lit ''Invalid birthday format''))"
    "Birthday (lit ''2021.02.01'') = Inl (ValueError (lit ''Invalid birthday format''))"
    "Birthday (lit ''01.01.2020xyz'') = Inl (ValueError (lit ''Invalid birthday format''))"
    "Birthday (lit ''01-01-2020'') = Inl (ValueError (lit ''Invalid birthday format''))"
    using char [of "lit ''''"] char [of "lit ''2021.02.01''"]
      char [of "lit ''01.01.2020xyz''"] char [of "lit ''01-01-2020''"] rejected
    by simp_all
  from form feb round_trip invalid rejected fails show ?thesis
    by simp
qed

end
